theory Spec2Isabelle
  imports Complex_Main
begin

section \<open>Darcy flow lab scripts: the flow solve and the permeability generator\<close>

text \<open>
  The repository holds two copies of \<open>solve_problem\<close> (\<open>lab/lab10\<close> and \<open>lab/lab99\<close>),
  \<open>generate_perm\<close> and the unfinished loader \<open>generate_\<close>. Everything numerical is done
  by PorePy, SciPy, NumPy's random module and scikit-learn; none of that code belongs to
  the repository. The embedding therefore takes each external call as a field of a
  record of library operations and models, line by line, what the scripts themselves do:
  the index bookkeeping on the boundary faces, the boundary labels and values, the flux
  recovery and its sum, the sample lattice, the absolute value and the Kozeny-Carman map.

  Statements about the values that the flow library computes (the pressure, the outflow,
  their dependence on the conductivity) need more than the scripts. For them one instance
  of the record of library operations is defined from the specification's description
  of the two-point flux discretisation, in a section of its own; the scripts are run
  against it unchanged.

  Conventions.
  \<^item> A float64 is a \<open>real\<close>; rounding, overflow and NaN inputs are not modelled. The one
    place where the scripts can leave the finite numbers by themselves, the unguarded
    division of the Kozeny-Carman map, has its own result type \<open>npfloat\<close>.
  \<^item> A Python exception is an \<open>Inl\<close>. \<open>Raised e\<close> is an exception \<open>e\<close> that comes out
    of an external library call; the other constructors are raised by the indexing and
    broadcasting steps that are modelled here.
  \<^item> A \<open>3 \<times> n\<close> coordinate array (\<open>sd.face_centers\<close>, \<open>sd.nodes\<close>) is the list of
    its \<open>n\<close> columns, so that it is rectangular by construction; \<open>row1\<close> is \<open>a[1]\<close>.
\<close>

subsection \<open>Exceptions\<close>

datatype 'e exn =
    KeyError string
  | IndexError
  | ValueError
  | NameError string
  | Raised 'e

definition bindE :: "'x + 'a \<Rightarrow> ('a \<Rightarrow> 'x + 'b) \<Rightarrow> 'x + 'b" where
  "bindE m f = (case m of Inl e \<Rightarrow> Inl e | Inr a \<Rightarrow> f a)"

definition ext :: "'e + 'a \<Rightarrow> 'e exn + 'a" where
  "ext m = (case m of Inl e \<Rightarrow> Inl (Raised e) | Inr a \<Rightarrow> Inr a)"

subsection \<open>The grid and the NumPy steps the scripts use\<close>

type_synonym point = "real \<times> real \<times> real"

record grid =
  num_cells :: nat
  face_centers :: "point list"
  nodes :: "point list"
  tags :: "string \<rightharpoonup> bool list"

definition row1 :: "point list \<Rightarrow> real list" where
  "row1 a = map (\<lambda>(x, y, z). y) a"

text \<open>\<open>a.nonzero()[0]\<close> on a boolean vector: the indices of its true entries, ascending.\<close>

definition nonzero :: "bool list \<Rightarrow> nat list" where
  "nonzero t = filter (\<lambda>i. t ! i) [0..<length t]"

text \<open>\<open>a[:, idx]\<close> and \<open>q[idx]\<close> with an integer index array: IndexError out of range.\<close>

definition take_indices :: "'a list \<Rightarrow> nat list \<Rightarrow> 'e exn + 'a list" where
  "take_indices a idx =
     (if \<forall>i \<in> set idx. i < length a then Inr (map (\<lambda>i. a ! i) idx) else Inl IndexError)"

text \<open>\<open>a[mask]\<close> with a boolean mask: the mask must be as long as the array.\<close>

definition mask_select :: "'a list \<Rightarrow> bool list \<Rightarrow> 'e exn + 'a list" where
  "mask_select a msk =
     (if length msk = length a then Inr (map fst (filter snd (zip a msk)))
      else Inl IndexError)"

text \<open>\<open>np.amax\<close> and \<open>np.amin\<close> raise ValueError on an empty array.\<close>

fun amax :: "real list \<Rightarrow> 'e exn + real" where
  "amax [] = Inl ValueError"
| "amax (x # xs) = Inr (fold max xs x)"

fun amin :: "real list \<Rightarrow> 'e exn + real" where
  "amin [] = Inl ValueError"
| "amin (x # xs) = Inr (fold min xs x)"

text \<open>\<open>np.isclose(a, b)\<close> with its defaults \<open>rtol = 1e-05\<close>, \<open>atol = 1e-08\<close>.\<close>

definition isclose :: "real \<Rightarrow> real \<Rightarrow> bool" where
  "isclose a b \<longleftrightarrow> \<bar>a - b\<bar> \<le> 1 / 100000000 + 1 / 100000 * \<bar>b\<bar>"

text \<open>An elementwise operation on two vectors, with NumPy's broadcasting of length 1.\<close>

definition broadcast2 :: "(real \<Rightarrow> real \<Rightarrow> real) \<Rightarrow> real list \<Rightarrow> real list \<Rightarrow> 'e exn + real list" where
  "broadcast2 f a b =
     (if length a = length b then Inr (map2 f a b)
      else if length a = 1 then Inr (map (\<lambda>y. f (hd a) y) b)
      else if length b = 1 then Inr (map (\<lambda>x. f x (hd b)) a)
      else Inl ValueError)"

text \<open>The conductivity argument: a Python float, or one value per cell.\<close>

datatype perm_arg = Scalar real | PerCell "real list"

text \<open>\<open>perm * np.ones(sd.num_cells)\<close>.\<close>

fun times_ones :: "perm_arg \<Rightarrow> nat \<Rightarrow> 'e exn + real list" where
  "times_ones (Scalar k) n = Inr (map (\<lambda>one. k * one) (replicate n 1))"
| "times_ones (PerCell ks) n = broadcast2 (\<lambda>k one. k * one) ks (replicate n 1)"

text \<open>A sparse matrix is the list of its rows; \<open>M @ v\<close> raises on a dimension mismatch.\<close>

type_synonym matrix = "real list list"

definition matvec :: "matrix \<Rightarrow> real list \<Rightarrow> 'e exn + real list" where
  "matvec M v =
     (if \<forall>r \<in> set M. length r = length v
      then Inr (map (\<lambda>r. sum_list (map2 (\<lambda>a x. a * x) r v)) M)
      else Inl ValueError)"

subsection \<open>The external flow library\<close>

text \<open>
  \<open>pp.SecondOrderTensor\<close>, \<open>pp.BoundaryCondition\<close>, \<open>pp.initialize_default_data\<close>,
  \<open>pp.Tpfa(key).discretize\<close>, \<open>pp.Tpfa(key).assemble_matrix_rhs\<close>,
  \<open>data[pp.DISCRETIZATION_MATRICES][key]\<close> and \<open>sps.linalg.spsolve\<close>. Their results are
  whatever the library returns; the types \<open>'sot\<close>, \<open>'bc\<close> and \<open>'data\<close> are the library's
  tensor, boundary-condition and data-dictionary objects.
\<close>

record ('sot, 'bc) parameters =
  second_order_tensor :: 'sot
  bc :: 'bc
  bc_values :: "real list"

record ('sot, 'bc, 'data, 'e) flow_lib =
  SecondOrderTensor :: "real list \<Rightarrow> 'e + 'sot"
  BoundaryCondition :: "grid \<Rightarrow> nat list \<Rightarrow> string list \<Rightarrow> 'e + 'bc"
  initialize_default_data :: "grid \<Rightarrow> string \<Rightarrow> ('sot, 'bc) parameters \<Rightarrow> 'e + 'data"
  tpfa_discretize :: "string \<Rightarrow> grid \<Rightarrow> 'data \<Rightarrow> 'e + 'data"
  tpfa_assemble_matrix_rhs :: "string \<Rightarrow> grid \<Rightarrow> 'data \<Rightarrow> 'e + matrix \<times> real list"
  discretization_matrices :: "'data \<Rightarrow> string \<Rightarrow> 'e + (string \<rightharpoonup> matrix)"
  spsolve :: "matrix \<Rightarrow> real list \<Rightarrow> 'e + real list"

definition getitem :: "(string \<rightharpoonup> 'a) \<Rightarrow> string \<Rightarrow> 'e exn + 'a" where
  "getitem d k = (case d k of None \<Rightarrow> Inl (KeyError k) | Some v \<Rightarrow> Inr v)"

subsection \<open>The boundary set-up of \<open>solve_problem\<close>\<close>

text \<open>\<open>b_faces = sd.tags["domain_boundary_faces"].nonzero()[0]\<close>\<close>

definition boundary_faces :: "grid \<Rightarrow> 'e exn + nat list" where
  "boundary_faces sd = bindE (getitem (tags sd) ''domain_boundary_faces'') (\<lambda>t. Inr (nonzero t))"

text \<open>\<open>labels = np.array(["dir"] * b_faces.size)\<close>\<close>

definition dir_labels :: "nat list \<Rightarrow> string list" where
  "dir_labels b_faces = replicate (length b_faces) ''dir''"

text \<open>\<open>bc_val = 1 - sd.face_centers[1]\<close>: one value for every face of the grid.\<close>

definition bc_val_of :: "grid \<Rightarrow> real list" where
  "bc_val_of sd = map (\<lambda>y. 1 - y) (row1 (face_centers sd))"

subsection \<open>\<open>solve_problem\<close>, lab10 and lab99\<close>

text \<open>
  Each copy is translated statement by statement. \<open>data = {}\<close> is overwritten before it
  is read and has no counterpart. \<open>tpfa.discretize\<close> fills the data dictionary in place:
  the model passes the dictionary it returns on to the later statements.
\<close>

text \<open>\<open>lab/lab10/solve_problem.py\<close>, with the inflow mask of line 35.\<close>

definition lab10_solve_problem ::
  "('sot, 'bc, 'data, 'e) flow_lib \<Rightarrow> grid \<Rightarrow> perm_arg \<Rightarrow> 'e exn + real list \<times> real" where
  "lab10_solve_problem L sd perm =
     (let key = ''flow'' in
      bindE (times_ones perm (num_cells sd)) (\<lambda>kxx.
      bindE (ext (SecondOrderTensor L kxx)) (\<lambda>sot.
      bindE (boundary_faces sd) (\<lambda>b_faces.
      bindE (take_indices (face_centers sd) b_faces) (\<lambda>b_face_centers.
      bindE (amax (row1 (nodes sd))) (\<lambda>ymax.
      let out_flow = map (\<lambda>y. isclose y ymax) (row1 b_face_centers) in
      bindE (amin (row1 (nodes sd))) (\<lambda>ymin.
      let in_flow = map (\<lambda>y. isclose y ymin) (row1 b_face_centers) in
      let labels = dir_labels b_faces;
          bc_val = bc_val_of sd in
      bindE (ext (BoundaryCondition L sd b_faces labels)) (\<lambda>bc.
      bindE (ext (initialize_default_data L sd key
               \<lparr>second_order_tensor = sot, bc = bc, bc_values = bc_val\<rparr>)) (\<lambda>data.
      bindE (ext (tpfa_discretize L key sd data)) (\<lambda>data.
      bindE (ext (tpfa_assemble_matrix_rhs L key sd data)) (\<lambda>(A_tpfa, b_tpfa).
      bindE (ext (spsolve L A_tpfa b_tpfa)) (\<lambda>cell_p_tpfa.
      bindE (ext (discretization_matrices L data key)) (\<lambda>mat_discr.
      bindE (getitem mat_discr ''flux'') (\<lambda>flux.
      bindE (matvec flux cell_p_tpfa) (\<lambda>flux_p.
      bindE (getitem mat_discr ''bound_flux'') (\<lambda>bound_flux.
      bindE (matvec bound_flux bc_val) (\<lambda>bound_flux_bc.
      bindE (broadcast2 (\<lambda>a b. a + b) flux_p bound_flux_bc) (\<lambda>q.
      bindE (mask_select b_faces out_flow) (\<lambda>out_faces.
      bindE (take_indices q out_faces) (\<lambda>q_out.
      Inr (cell_p_tpfa, sum_list q_out)))))))))))))))))))))"

text \<open>\<open>lab/lab99/solve_problem.py\<close>.\<close>

definition lab99_solve_problem ::
  "('sot, 'bc, 'data, 'e) flow_lib \<Rightarrow> grid \<Rightarrow> perm_arg \<Rightarrow> 'e exn + real list \<times> real" where
  "lab99_solve_problem L sd perm_mu =
     (let key = ''flow'' in
      bindE (times_ones perm_mu (num_cells sd)) (\<lambda>kxx.
      bindE (ext (SecondOrderTensor L kxx)) (\<lambda>sot.
      bindE (boundary_faces sd) (\<lambda>b_faces.
      bindE (take_indices (face_centers sd) b_faces) (\<lambda>b_face_centers.
      bindE (amax (row1 (nodes sd))) (\<lambda>ymax.
      let out_flow = map (\<lambda>y. isclose y ymax) (row1 b_face_centers) in
      let labels = dir_labels b_faces;
          bc_val = bc_val_of sd in
      bindE (ext (BoundaryCondition L sd b_faces labels)) (\<lambda>bc.
      bindE (ext (initialize_default_data L sd key
               \<lparr>second_order_tensor = sot, bc = bc, bc_values = bc_val\<rparr>)) (\<lambda>data.
      bindE (ext (tpfa_discretize L key sd data)) (\<lambda>data.
      bindE (ext (tpfa_assemble_matrix_rhs L key sd data)) (\<lambda>(A_tpfa, b_tpfa).
      bindE (ext (spsolve L A_tpfa b_tpfa)) (\<lambda>cell_p_tpfa.
      bindE (ext (discretization_matrices L data key)) (\<lambda>mat_discr.
      bindE (getitem mat_discr ''flux'') (\<lambda>flux.
      bindE (matvec flux cell_p_tpfa) (\<lambda>flux_p.
      bindE (getitem mat_discr ''bound_flux'') (\<lambda>bound_flux.
      bindE (matvec bound_flux bc_val) (\<lambda>bound_flux_bc.
      bindE (broadcast2 (\<lambda>a b. a + b) flux_p bound_flux_bc) (\<lambda>q.
      bindE (mask_select b_faces out_flow) (\<lambda>out_faces.
      bindE (take_indices q out_faces) (\<lambda>q_out.
      Inr (cell_p_tpfa, sum_list q_out))))))))))))))))))))"

subsection \<open>The permeability generator\<close>

text \<open>
  \<open>np.random.seed\<close>, \<open>np.random.rand\<close>, scikit-learn's \<open>RBF\<close>,
  \<open>GaussianProcessRegressor(kernel=kernel, optimizer=None)\<close>, \<open>gp.fit\<close> and
  \<open>gp.sample_y\<close>. NumPy's global generator is the state \<open>'g\<close>, threaded through the
  two calls that touch it; \<open>'k\<close> and \<open>'gp\<close> are the library's kernel and regressor
  objects. \<open>gp.sample_y(X, n_samples)\<close> returns a two-dimensional array, kept as the list
  of its rows.
\<close>

record ('g, 'k, 'gp, 'e) gp_lib =
  random_seed :: "int option \<Rightarrow> 'g \<Rightarrow> 'e + 'g"
  random_rand :: "nat \<Rightarrow> 'g \<Rightarrow> real list \<times> 'g"
  RBF :: "real \<Rightarrow> 'e + 'k"
  GaussianProcessRegressor :: "'k \<Rightarrow> 'e + 'gp"
  gp_fit :: "'gp \<Rightarrow> (real \<times> real) list \<Rightarrow> real list \<Rightarrow> 'e + 'gp"
  gp_sample_y :: "'gp \<Rightarrow> (real \<times> real) list \<Rightarrow> nat \<Rightarrow> 'e + real list list"

text \<open>The keyword arguments that \<open>generate_perm\<close> reads with \<open>kwargs.get\<close>.\<close>

record kwargs =
  kw_seed :: "int option"
  kw_perm_ref :: "real option"

text \<open>
  The result of a NumPy division of finite numbers: a division by zero does not raise, it
  gives an infinity or NaN (with a warning).
\<close>

datatype npfloat = Finite real | PosInf | NegInf | NaN

definition np_divide :: "real \<Rightarrow> real \<Rightarrow> npfloat" where
  "np_divide a b =
     (if b \<noteq> 0 then Finite (a / b)
      else if 0 < a then PosInf
      else if a < 0 then NegInf
      else NaN)"



text \<open>\<open>np.arange(start, stop)\<close> on floats: \<open>ceil(stop - start)\<close> values \<open>start + i\<close>.\<close>

definition arange :: "real \<Rightarrow> real \<Rightarrow> real list" where
  "arange start stop = map (\<lambda>i. start + real i) [0..<nat \<lceil>stop - start\<rceil>]"

text \<open>
  \<open>np.array(np.meshgrid(space, space)).T.reshape(-1, 2)\<close>: row \<open>j * len + i\<close> is
  \<open>(space[j], space[i])\<close>.
\<close>

definition lattice :: "real list \<Rightarrow> (real \<times> real) list" where
  "lattice space = concat (map (\<lambda>a. map (\<lambda>b. (a, b)) space) space)"

text \<open>\<open>perm_ref * np.power(phi, 3) / np.square(1 - phi)\<close>, for one entry.\<close>

definition kozeny_carman :: "real \<Rightarrow> real \<Rightarrow> npfloat" where
  "kozeny_carman pref phi = np_divide (pref * phi ^ 3) ((1 - phi)\<^sup>2)"

definition generate_perm ::
  "('g, 'k, 'gp, 'e) gp_lib \<Rightarrow> grid \<Rightarrow> real \<Rightarrow> kwargs \<Rightarrow> 'g \<Rightarrow> ('e exn + npfloat list) \<times> 'g" where
  "generate_perm L sd params kw g =
     (case random_seed L (kw_seed kw) g of
        Inl e \<Rightarrow> (Inl (Raised e), g)
      | Inr g1 \<Rightarrow>
     (case RBF L params of
        Inl e \<Rightarrow> (Inl (Raised e), g1)
      | Inr rbf_kernel \<Rightarrow>
     (case GaussianProcessRegressor L rbf_kernel of
        Inl e \<Rightarrow> (Inl (Raised e), g1)
      | Inr gp \<Rightarrow>
     (let space = arange 1 (sqrt (real (num_cells sd)) + 1);
          xy = lattice space;
          (y, g2) = random_rand L (length xy) g1 in
     (case gp_fit L gp xy y of
        Inl e \<Rightarrow> (Inl (Raised e), g2)
      | Inr gp \<Rightarrow>
     (case gp_sample_y L gp xy 1 of
        Inl e \<Rightarrow> (Inl (Raised e), g2)
      | Inr samples \<Rightarrow>
     (let phi = concat samples;
          phi = map abs phi;
          pref = (case kw_perm_ref kw of None \<Rightarrow> 1 | Some r \<Rightarrow> r);
          perm = map (kozeny_carman pref) phi
      in (Inr perm, g2))))))))"

subsection \<open>The file loader\<close>

text \<open>
  \<open>np.loadtxt\<close>, \<open>pp.CartGrid\<close> and \<open>sd.compute_geometry\<close>. \<open>'obj\<close> is the type of the
  object a resolved name stands for, \<open>'arr\<close> the array \<open>np.loadtxt\<close> returns.
\<close>

record ('obj, 'arr, 'e) io_lib =
  loadtxt :: "'obj \<Rightarrow> 'obj \<Rightarrow> 'e + 'arr"
  CartGrid :: "nat list \<Rightarrow> real list \<Rightarrow> 'e + grid"
  compute_geometry :: "grid \<Rightarrow> 'e + grid"

text \<open>
  The names bound at the top level of \<open>lab/lab10/solve_problem.py\<close>: its six imports and
  its three functions.
\<close>

definition module_globals :: "string list" where
  "module_globals =
     [''np'', ''pp'', ''pg'', ''sps'', ''GaussianProcessRegressor'', ''RBF'',
      ''solve_problem'', ''generate_perm'', ''generate_'']"

text \<open>
  Python's name lookup inside a function body: the local scope, then the module's
  globals, then the builtins; NameError when none of them binds the name. A scope is an
  association list from names to objects.
\<close>

definition resolve ::
  "(string \<times> 'obj) list \<Rightarrow> (string \<times> 'obj) list \<Rightarrow> (string \<times> 'obj) list \<Rightarrow> string \<Rightarrow> 'e exn + 'obj" where
  "resolve locals globals builtins name =
     (case map_of locals name of
        Some v \<Rightarrow> Inr v
      | None \<Rightarrow>
     (case map_of globals name of
        Some v \<Rightarrow> Inr v
      | None \<Rightarrow>
     (case map_of builtins name of
        Some v \<Rightarrow> Inr v
      | None \<Rightarrow> Inl (NameError name))))"

text \<open>
  \<open>generate_\<close> of the source, here \<open>generate_from_file\<close> (a name cannot end in an
  underscore). The call \<open>np.loadtxt(file_name, skip)\<close> looks up \<open>np\<close>, then evaluates its
  two arguments in order, before the library is entered. \<open>globals\<close> binds the names of
  \<open>module_globals\<close>.
\<close>

definition generate_from_file ::
  "('obj, 'arr, 'e) io_lib \<Rightarrow> (string \<times> 'obj) list \<Rightarrow> (string \<times> 'obj) list \<Rightarrow> 'obj
     \<Rightarrow> 'e exn + grid \<times> 'arr" where
  "generate_from_file L globals builtins file_name =
     (let locals = [(''file_name'', file_name)] in
      bindE (resolve locals globals builtins ''np'') (\<lambda>np.
      bindE (resolve locals globals builtins ''file_name'') (\<lambda>arg1.
      bindE (resolve locals globals builtins ''skip'') (\<lambda>arg2.
      bindE (ext (loadtxt L arg1 arg2)) (\<lambda>porosity.
      let dim = 2 in
      bindE (resolve locals globals builtins ''pp'') (\<lambda>pp.
      bindE (ext (CartGrid L (replicate dim 25) (replicate dim 1))) (\<lambda>sd.
      bindE (ext (compute_geometry L sd)) (\<lambda>sd.
      Inr (sd, porosity)))))))))"

subsection \<open>Concrete inputs for the examples\<close>

text \<open>
  The unit square as one cell and as two cells side by side, numbered as PorePy's
  Cartesian grids are: the faces normal to \<open>x\<close> first, then the faces normal to \<open>y\<close>.
\<close>

definition unit_cell :: grid where
  "unit_cell =
     \<lparr>num_cells = 1,
      face_centers = [(0, 1/2, 0), (1, 1/2, 0), (1/2, 0, 0), (1/2, 1, 0)],
      nodes = [(0, 0, 0), (1, 0, 0), (0, 1, 0), (1, 1, 0)],
      tags = [''domain_boundary_faces'' \<mapsto> [True, True, True, True]]\<rparr>"

definition two_cells :: grid where
  "two_cells =
     \<lparr>num_cells = 2,
      face_centers = [(0, 1/2, 0), (1/2, 1/2, 0), (1, 1/2, 0),
                      (1/4, 0, 0), (3/4, 0, 0), (1/4, 1, 0), (3/4, 1, 0)],
      nodes = [(0, 0, 0), (1/2, 0, 0), (1, 0, 0), (0, 1, 0), (1/2, 1, 0), (1, 1, 0)],
      tags = [''domain_boundary_faces'' \<mapsto> [True, False, True, True, True, True, True]]\<rparr>"

text \<open>
  A stand-in for the flow library on \<open>unit_cell\<close>, used to run the two copies of
  \<open>solve_problem\<close> on a concrete input: the one-cell two-point flux system written out
  by hand (half transmissibility \<open>2 k\<close> on each of the four faces), solved by one
  division. It is an input of the examples, not a model of PorePy.
\<close>

definition one_cell_lib ::
  "(real list, nat list \<times> string list,
    (real list, nat list \<times> string list) parameters, string) flow_lib" where
  "one_cell_lib =
     \<lparr>SecondOrderTensor = (\<lambda>kxx. Inr kxx),
      BoundaryCondition = (\<lambda>sd faces labels. Inr (faces, labels)),
      initialize_default_data = (\<lambda>sd key ps. Inr ps),
      tpfa_discretize = (\<lambda>key sd data. Inr data),
      tpfa_assemble_matrix_rhs = (\<lambda>key sd data.
         let t = 2 * hd (second_order_tensor data)
         in Inr ([[4 * t]], [t * sum_list (bc_values data)])),
      discretization_matrices = (\<lambda>data key.
         let t = 2 * hd (second_order_tensor data)
         in Inr [''flux'' \<mapsto> [[- t], [t], [- t], [t]],
                 ''bound_flux'' \<mapsto>
                   [[t, 0, 0, 0], [0, - t, 0, 0], [0, 0, t, 0], [0, 0, 0, - t]]]),
      spsolve = (\<lambda>A b. if hd (hd A) = 0 then Inl ''singular'' else Inr [hd b / hd (hd A)])\<rparr>"

text \<open>
  A stand-in for the random and Gaussian-process library that checks none of its
  arguments: seeding sets the counter, \<open>rand\<close> reads tenths off the counter, and a
  sample repeats the fitted targets. It is an input of the examples, not a model of
  scikit-learn.
\<close>

definition toy_gp_lib ::
  "(nat, real, real \<times> (real \<times> real) list \<times> real list, string) gp_lib" where
  "toy_gp_lib =
     \<lparr>random_seed = (\<lambda>s g. case s of None \<Rightarrow> Inr g | Some n \<Rightarrow> Inr (nat n)),
      random_rand = (\<lambda>n g. (map (\<lambda>i. real ((g + i) mod 10) / 10) [0..<n], g + n)),
      RBF = (\<lambda>l. Inr l),
      GaussianProcessRegressor = (\<lambda>k. Inr (k, [], [])),
      gp_fit = (\<lambda>(k, X0, y0) X y. Inr (k, X, y)),
      gp_sample_y = (\<lambda>(k, X0, y0) X n.
         Inr (map (\<lambda>i. replicate n (if i < length y0 then y0 ! i else 0)) [0..<length X]))\<rparr>"

text \<open>A stand-in for the loader's library, and scopes in which an object is its name.\<close>

definition toy_io_lib :: "(string, real list, string) io_lib" where
  "toy_io_lib =
     \<lparr>loadtxt = (\<lambda>file_name dtype. Inr [1/5, 3/10]),
      CartGrid = (\<lambda>nx physdims.
         Inr \<lparr>num_cells = prod_list nx, face_centers = [], nodes = [], tags = Map.empty\<rparr>),
      compute_geometry = (\<lambda>sd. Inr sd)\<rparr>"

definition toy_globals :: "(string \<times> string) list" where
  "toy_globals = map (\<lambda>n. (n, n)) module_globals"

definition toy_builtins :: "(string \<times> string) list" where
  "toy_builtins = [(''print'', ''print''), (''len'', ''len''), (''open'', ''open'')]"

section \<open>A model of the library's two-point flux discretisation\<close>

text \<open>
  The discretisation (\<open>pp.Tpfa\<close>), the boundary-condition object, the solver
  (\<open>spsolve\<close>) and the grid constructor (\<open>pp.CartGrid\<close>) are library code: \<open>solve_problem\<close>
  only calls them. What they compute is described in the specification (FlowSolver,
  steps 4 to 6, and the data model). The definitions of this section follow that
  description, over the reals, and instantiate the record \<open>flow_lib\<close> with it; the two
  copies of \<open>solve_problem\<close> above are used unchanged.

  The model is partial on purpose: it covers strictly positive conductivities on a
  well-formed face list, where no quotient below has a zero denominator, and raises on
  everything else.
\<close>

text \<open>
  Modelled from the spec: the grid connectivity that the library reads from the grid
  object (not in the repository; \<open>solve_problem\<close> never touches it). A face has the cell
  that owns it, the neighbour cell across it (none on the boundary), the distances from
  the face centre to the two cell centres, and its measure.
\<close>

record face =
  f_owner :: nat
  f_neighbour :: "nat option"
  f_dist_owner :: real
  f_dist_neighbour :: real
  f_area :: real

text \<open>Modelled from the spec: the cell count and the faces of a grid, library data.\<close>

record connectivity =
  n_cells :: nat
  c_faces :: "face list"

text \<open>
  Modelled from the spec: the library's face conductivity, ``the distance-weighted
  harmonic mean of the two adjacent cells' conductivities''.
\<close>

definition k_harmonic :: "real \<Rightarrow> real \<Rightarrow> real \<Rightarrow> real \<Rightarrow> real" where
  "k_harmonic d1 k1 d2 k2 = (d1 + d2) / (d1 / k1 + d2 / k2)"

text \<open>
  Modelled from the spec: the library's flux coefficient of a face. The specification
  gives the flux density, \<open>k_harmonic * (p_owner - p_neighbor) / distance\<close> on an
  internal face and the cell conductivity over the distance to the face centre on a
  boundary face. The flux through the face is the density times the measure of the
  face: the specification leaves the factor out of its formula and relies on it where
  it states the total outflow as \<open>k\<close> times the domain width.
\<close>

definition transmissibility :: "real list \<Rightarrow> face \<Rightarrow> real" where
  "transmissibility kxx f =
     (case f_neighbour f of
        None \<Rightarrow> f_area f * (kxx ! f_owner f / f_dist_owner f)
      | Some n \<Rightarrow>
          f_area f * (k_harmonic (f_dist_owner f) (kxx ! f_owner f) (f_dist_neighbour f) (kxx ! n)
                      / (f_dist_owner f + f_dist_neighbour f)))"

text \<open>
  Modelled from the spec: the orientation of a face seen from a cell (library data):
  \<open>1\<close> for the owner, \<open>- 1\<close> for the neighbour, \<open>0\<close> for every other cell.
\<close>

definition div_coef :: "face \<Rightarrow> nat \<Rightarrow> real" where
  "div_coef f c = (if c = f_owner f then 1 else if f_neighbour f = Some c then - 1 else 0)"

text \<open>
  Modelled from the spec: the library's matrix \<open>flux\<close>, one row per face, which maps
  cell pressures to \<open>coefficient * (p_owner - p_neighbor)\<close>.
\<close>

definition flux_matrix :: "connectivity \<Rightarrow> real list \<Rightarrow> matrix" where
  "flux_matrix conn kxx =
     map (\<lambda>f. map (\<lambda>c. transmissibility kxx f * div_coef f c) [0..<n_cells conn]) (c_faces conn)"

text \<open>
  Modelled from the spec: on a boundary face the prescribed value stands for the missing
  neighbour pressure, so it enters the flux with the opposite sign (library code).
\<close>

definition bound_coef :: "real list \<Rightarrow> face \<Rightarrow> real" where
  "bound_coef kxx f = (case f_neighbour f of None \<Rightarrow> - transmissibility kxx f | Some n \<Rightarrow> 0)"

text \<open>
  Modelled from the spec: the library's matrix \<open>bound_flux\<close>, diagonal, one row and one
  column per face.
\<close>

definition bound_flux_matrix :: "connectivity \<Rightarrow> real list \<Rightarrow> matrix" where
  "bound_flux_matrix conn kxx =
     map (\<lambda>i. map (\<lambda>j. if j = i then bound_coef kxx (c_faces conn ! i) else 0)
                 [0..<length (c_faces conn)])
         [0..<length (c_faces conn)]"

text \<open>
  Modelled from the spec: the library's system matrix \<open>A\<close>, ``from cell-to-cell and
  cell-to-boundary flux coefficients'': the row of a cell adds up the fluxes through
  its faces, each counted outwards.
\<close>

definition tpfa_matrix :: "connectivity \<Rightarrow> real list \<Rightarrow> matrix" where
  "tpfa_matrix conn kxx =
     map (\<lambda>c. map (\<lambda>c'. sum_list (map (\<lambda>f. div_coef f c * (transmissibility kxx f * div_coef f c'))
                                      (c_faces conn)))
                 [0..<n_cells conn])
         [0..<n_cells conn]"

text \<open>Modelled from the spec: the library's right-hand side \<open>b\<close>, ``from boundary contributions''.\<close>

definition tpfa_rhs :: "connectivity \<Rightarrow> real list \<Rightarrow> real list \<Rightarrow> real list" where
  "tpfa_rhs conn kxx bcv =
     map (\<lambda>c. sum_list (map (\<lambda>i. div_coef (c_faces conn ! i) c
                                    * (- bound_coef kxx (c_faces conn ! i) * bcv ! i))
                           [0..<length (c_faces conn)]))
         [0..<n_cells conn]"

text \<open>
  Modelled from the spec: what the library takes for granted of a face of a grid with
  \<open>n\<close> cells (cells in range, two different cells at an internal face, positive
  distances and measure).
\<close>

definition face_ok :: "nat \<Rightarrow> face \<Rightarrow> bool" where
  "face_ok n f \<longleftrightarrow>
     f_owner f < n \<and> 0 < f_dist_owner f \<and> 0 < f_area f
     \<and> (case f_neighbour f of
           None \<Rightarrow> True
         | Some m \<Rightarrow> m < n \<and> m \<noteq> f_owner f \<and> 0 < f_dist_neighbour f)"

text \<open>
  Modelled from the spec: the inputs on which the library's discretisation is defined:
  one conductivity per cell, one boundary value per face, positive conductivities,
  well-formed faces.
\<close>

definition well_posed :: "connectivity \<Rightarrow> real list \<Rightarrow> real list \<Rightarrow> bool" where
  "well_posed conn kxx bcv \<longleftrightarrow>
     length kxx = n_cells conn \<and> length bcv = length (c_faces conn)
     \<and> list_all (\<lambda>k. 0 < k) kxx \<and> list_all (face_ok (n_cells conn)) (c_faces conn)"

text \<open>
  Modelled from the spec: the library calls of \<open>solve_problem\<close> (PorePy and SciPy, not in
  the repository), as an instance of \<open>flow_lib\<close>. The tensor is the vector of cell
  conductivities; the boundary condition is the pair of faces and labels and cannot be
  built from no faces; every boundary face is treated as a Dirichlet face, which is the
  only label \<open>solve_problem\<close> assigns; the solver is a parameter, constrained by
  \<open>direct_solver\<close> below.
\<close>

definition tpfa_lib ::
  "connectivity \<Rightarrow> (matrix \<Rightarrow> real list \<Rightarrow> string + real list)
     \<Rightarrow> (real list, nat list \<times> string list,
          (real list, nat list \<times> string list) parameters, string) flow_lib" where
  "tpfa_lib conn solver =
     \<lparr>SecondOrderTensor = (\<lambda>kxx. Inr kxx),
      BoundaryCondition = (\<lambda>sd faces labels.
         if faces = [] then Inl ''no boundary faces'' else Inr (faces, labels)),
      initialize_default_data = (\<lambda>sd key ps. Inr ps),
      tpfa_discretize = (\<lambda>key sd data.
         if well_posed conn (second_order_tensor data) (bc_values data) then Inr data
         else Inl ''ill-posed''),
      tpfa_assemble_matrix_rhs = (\<lambda>key sd data.
         Inr (tpfa_matrix conn (second_order_tensor data),
              tpfa_rhs conn (second_order_tensor data) (bc_values data))),
      discretization_matrices = (\<lambda>data key.
         Inr [''flux'' \<mapsto> flux_matrix conn (second_order_tensor data),
              ''bound_flux'' \<mapsto> bound_flux_matrix conn (second_order_tensor data)]),
      spsolve = solver\<rparr>"

text \<open>Modelled from the spec: \<open>x\<close> solves the linear system \<open>A x = b\<close>, what the library solver is asked for.\<close>

definition solves :: "matrix \<Rightarrow> real list \<Rightarrow> real list \<Rightarrow> bool" where
  "solves A b x \<longleftrightarrow> matvec A x = (Inr b :: unit exn + real list)"

text \<open>
  Modelled from the spec: the library's ``exact direct solve'', which fails on a singular
  matrix: on the system \<open>A\<close>, \<open>b\<close> the solver returns \<open>x\<close> exactly when \<open>x\<close> is the one
  solution of the system.
\<close>

definition direct_solver :: "(matrix \<Rightarrow> real list \<Rightarrow> 'e + real list) \<Rightarrow> matrix \<Rightarrow> real list \<Rightarrow> bool" where
  "direct_solver solver A b \<longleftrightarrow>
     (\<forall>x. solver A b = Inr x \<longleftrightarrow> solves A b x \<and> (\<forall>y. solves A b y \<longrightarrow> y = x))"

text \<open>The difference across a face: owner minus neighbour, or owner alone on the boundary.\<close>

definition jump :: "face \<Rightarrow> real list \<Rightarrow> real" where
  "jump f x = x ! f_owner f - (case f_neighbour f of None \<Rightarrow> 0 | Some n \<Rightarrow> x ! n)"

text \<open>The entry of \<open>flux @ x + bound_flux @ bcv\<close> at face \<open>i\<close>, in closed form.\<close>

definition face_flux :: "connectivity \<Rightarrow> real list \<Rightarrow> real list \<Rightarrow> real list \<Rightarrow> nat \<Rightarrow> real" where
  "face_flux conn kxx bcv x i =
     transmissibility kxx (c_faces conn ! i) * jump (c_faces conn ! i) x
     + bound_coef kxx (c_faces conn ! i) * bcv ! i"

text \<open>\<open>c * perm\<close> for a float \<open>c\<close>: the conductivity argument scaled, a float or every entry.\<close>

definition scaled :: "real \<Rightarrow> perm_arg \<Rightarrow> perm_arg" where
  "scaled c perm = (case perm of Scalar k \<Rightarrow> Scalar (c * k) | PerCell ks \<Rightarrow> PerCell (map (\<lambda>k. c * k) ks))"

subsection \<open>The uniform Cartesian grid of the unit square\<close>

text \<open>
  The grid of \<open>nx\<close> by \<open>ny\<close> equal cells, numbered as the library's structured grids
  are: cells row by row with \<open>x\<close> running fastest; first the \<open>(nx + 1) * ny\<close> faces
  across the \<open>x\<close> direction, row by row, then the \<open>nx * (ny + 1)\<close> faces across the
  \<open>y\<close> direction.
\<close>

text \<open>
  Modelled from the spec: face \<open>g\<close> across the \<open>x\<close> direction of the library's Cartesian
  grid (\<open>pp.CartGrid\<close>, not in the repository), in column \<open>g mod (nx + 1)\<close> of row
  \<open>g div (nx + 1)\<close>; the first and the last column lie on the boundary.
\<close>

definition x_face :: "nat \<Rightarrow> nat \<Rightarrow> nat \<Rightarrow> face" where
  "x_face nx ny g =
     (let i = g mod (nx + 1); j = g div (nx + 1) in
      \<lparr>f_owner = (if i = 0 then 0 else i - 1) + nx * j,
       f_neighbour = (if 0 < i \<and> i < nx then Some (i + nx * j) else None),
       f_dist_owner = 1 / (2 * real nx),
       f_dist_neighbour = 1 / (2 * real nx),
       f_area = 1 / real ny\<rparr>)"

text \<open>
  Modelled from the spec: face \<open>g\<close> across the \<open>y\<close> direction of the library's Cartesian
  grid, between cell \<open>g - nx\<close> below and cell \<open>g\<close> above; the first and the last row of
  faces lie on the boundary.
\<close>

definition y_face :: "nat \<Rightarrow> nat \<Rightarrow> nat \<Rightarrow> face" where
  "y_face nx ny g =
     \<lparr>f_owner = (if g < nx then g else g - nx),
      f_neighbour = (if nx \<le> g \<and> g < nx * ny then Some g else None),
      f_dist_owner = 1 / (2 * real ny),
      f_dist_neighbour = 1 / (2 * real ny),
      f_area = 1 / real nx\<rparr>"

text \<open>Modelled from the spec: the connectivity of the library's Cartesian grid of the unit square.\<close>

definition cart_conn :: "nat \<Rightarrow> nat \<Rightarrow> connectivity" where
  "cart_conn nx ny =
     \<lparr>n_cells = nx * ny,
      c_faces = map (x_face nx ny) [0..<(nx + 1) * ny] @ map (y_face nx ny) [0..<nx * (ny + 1)]\<rparr>"

text \<open>
  Modelled from the spec: the attributes of the library's Cartesian grid of the unit
  square that \<open>solve_problem\<close> reads: the cell count, the face centres, the nodes and
  the boundary tag of every face.
\<close>

definition cart_grid :: "nat \<Rightarrow> nat \<Rightarrow> grid" where
  "cart_grid nx ny =
     \<lparr>num_cells = nx * ny,
      face_centers =
        map (\<lambda>g. (real (g mod (nx + 1)) / real nx, (real (g div (nx + 1)) + 1/2) / real ny, 0))
            [0..<(nx + 1) * ny]
        @ map (\<lambda>g. ((real (g mod nx) + 1/2) / real nx, real (g div nx) / real ny, 0))
            [0..<nx * (ny + 1)],
      nodes =
        map (\<lambda>g. (real (g mod (nx + 1)) / real nx, real (g div (nx + 1)) / real ny, 0))
            [0..<(nx + 1) * (ny + 1)],
      tags = [''domain_boundary_faces'' \<mapsto>
                map (\<lambda>g. g mod (nx + 1) = 0 \<or> g mod (nx + 1) = nx) [0..<(nx + 1) * ny]
                @ map (\<lambda>g. g < nx \<or> nx * ny \<le> g) [0..<nx * (ny + 1)]]\<rparr>"

text \<open>The boundary tag of face \<open>i\<close> of the Cartesian grid.\<close>

definition cart_tag :: "nat \<Rightarrow> nat \<Rightarrow> nat \<Rightarrow> bool" where
  "cart_tag nx ny =
     (!) (map (\<lambda>g. g mod (nx + 1) = 0 \<or> g mod (nx + 1) = nx) [0..<(nx + 1) * ny]
          @ map (\<lambda>g. g < nx \<or> nx * ny \<le> g) [0..<nx * (ny + 1)])"

text \<open>Modelled from the spec: the centre of cell \<open>c\<close> of the library's Cartesian grid.\<close>

definition cell_center :: "nat \<Rightarrow> nat \<Rightarrow> nat \<Rightarrow> real \<times> real" where
  "cell_center nx ny c = ((real (c mod nx) + 1/2) / real nx, (real (c div nx) + 1/2) / real ny)"

text \<open>Modelled from the spec: the analytic solution \<open>p(x, y) = 1 - y\<close>.\<close>

definition analytic_pressure :: "real \<times> real \<Rightarrow> real" where
  "analytic_pressure xy = 1 - snd xy"

text \<open>The analytic solution at the cell centres, written out.\<close>

definition linear_field :: "nat \<Rightarrow> nat \<Rightarrow> real list" where
  "linear_field nx ny = map (\<lambda>c. 1 - (real (c div nx) + 1/2) / real ny) [0..<nx * ny]"

text \<open>
  A direct solver for the examples: a system in one unknown is solved by one division,
  and a zero coefficient is a singular matrix.
\<close>

definition solve1 :: "matrix \<Rightarrow> real list \<Rightarrow> string + real list" where
  "solve1 A b =
     (case (A, b) of
        ([[a]], [y]) \<Rightarrow> if a = 0 then Inl ''singular matrix'' else Inr [y / a]
      | _ \<Rightarrow> Inl ''not a system in one unknown'')"

text \<open>
  A direct solver for two unknowns, by Cramer's rule; a zero determinant is a singular
  matrix.
\<close>

definition solve2 :: "matrix \<Rightarrow> real list \<Rightarrow> string + real list" where
  "solve2 A b =
     (case (A, b) of
        ([[a11, a12], [a21, a22]], [b1, b2]) \<Rightarrow>
          if a11 * a22 - a12 * a21 = 0 then Inl ''singular matrix''
          else Inr [(b1 * a22 - a12 * b2) / (a11 * a22 - a12 * a21),
                    (a11 * b2 - b1 * a21) / (a11 * a22 - a12 * a21)]
      | _ \<Rightarrow> Inl ''not a system in two unknowns'')"

section \<open>Evaluating the model on the concrete inputs\<close>

lemma one_cell_calls:
  "SecondOrderTensor one_cell_lib kxx = Inr kxx"
  "BoundaryCondition one_cell_lib sd faces labels = Inr (faces, labels)"
  "initialize_default_data one_cell_lib sd key ps = Inr ps"
  "tpfa_discretize one_cell_lib key sd data = Inr data"
  "tpfa_assemble_matrix_rhs one_cell_lib key sd data
     = Inr ([[4 * (2 * hd (second_order_tensor data))]],
            [2 * hd (second_order_tensor data) * sum_list (bc_values data)])"
  "discretization_matrices one_cell_lib data key
     = Inr [''flux'' \<mapsto> [[- (2 * hd (second_order_tensor data))], [2 * hd (second_order_tensor data)],
                          [- (2 * hd (second_order_tensor data))], [2 * hd (second_order_tensor data)]],
            ''bound_flux'' \<mapsto>
              [[2 * hd (second_order_tensor data), 0, 0, 0],
               [0, - (2 * hd (second_order_tensor data)), 0, 0],
               [0, 0, 2 * hd (second_order_tensor data), 0],
               [0, 0, 0, - (2 * hd (second_order_tensor data))]]]"
  "spsolve one_cell_lib A b = (if hd (hd A) = 0 then Inl ''singular'' else Inr [hd b / hd (hd A)])"
  by (simp_all add: one_cell_lib_def Let_def)

lemma unit_cell_boundary:
  "boundary_faces unit_cell = Inr [0, 1, 2, 3]"
  by (simp add: boundary_faces_def unit_cell_def getitem_def bindE_def nonzero_def upt_conv_Cons)

lemma unit_cell_bc_val: "bc_val_of unit_cell = [1/2, 1/2, 1, 0]"
  by (simp add: bc_val_of_def unit_cell_def row1_def)

lemma unit_cell_fields:
  "num_cells unit_cell = 1"
  "face_centers unit_cell = [(0, 1/2, 0), (1, 1/2, 0), (1/2, 0, 0), (1/2, 1, 0)]"
  "row1 (nodes unit_cell) = [0, 0, 1, 1]"
  by (simp_all add: unit_cell_def row1_def)

lemma unit_cell_out_flow:
  "map (\<lambda>y. isclose y 1) (row1 [(0, 1/2, 0), (1, 1/2, 0), (1/2, 0, 0), (1/2, 1, 0)])
     = [False, False, False, True]"
  by (simp add: row1_def isclose_def)

lemma lab99_unit_cell:
  "lab99_solve_problem one_cell_lib unit_cell (Scalar 3) = Inr ([1/2], 3)"
  by (simp add: lab99_solve_problem_def unit_cell_boundary unit_cell_bc_val unit_cell_fields
        unit_cell_out_flow one_cell_calls bindE_def ext_def take_indices_def dir_labels_def
        getitem_def matvec_def broadcast2_def mask_select_def)

lemma ceiling_sqrt_eq:
  assumes "real m ^ 2 < x" "x \<le> (real m + 1) ^ 2"
  shows "\<lceil>sqrt x\<rceil> = int m + 1"
proof -
  have "sqrt (real m ^ 2) < sqrt x" using assms(1) by (simp only: real_sqrt_less_iff)
  then have lo: "real m < sqrt x" by simp
  have "sqrt x \<le> sqrt ((real m + 1) ^ 2)" using assms(2) by (simp only: real_sqrt_le_iff)
  then have hi: "sqrt x \<le> real m + 1" by simp
  show ?thesis using lo hi by (simp add: ceiling_eq_iff) 
qed

lemma arange_two: "arange 1 (sqrt 2 + 1) = [1, 2]"
proof -
  have "\<lceil>sqrt 2\<rceil> = int 1 + 1"
    by (rule ceiling_sqrt_eq) simp_all
  then have "nat \<lceil>sqrt 2 + 1 - 1\<rceil> = 2" by simp
  then show ?thesis by (simp add: arange_def upt_rec numeral_2_eq_2)
qed

lemma upt_0_4: "[0..<Suc (Suc (Suc (Suc 0)))] = [0, 1, 2, 3]"
  by (simp add: upt_conv_Cons)

lemma lattice_1_2: "lattice [1, 2] = [(1, 1), (1, 2), (2, 1), (2, 2)]"
  by (simp add: lattice_def)

lemma toy_calls:
  "random_seed toy_gp_lib (Some 0) g = Inr 0"
  "RBF toy_gp_lib l = Inr l"
  "GaussianProcessRegressor toy_gp_lib k = Inr (k, [], [])"
  "gp_fit toy_gp_lib (k, X0, y0) X y = Inr (k, X, y)"
  "random_rand toy_gp_lib n g' = (map (\<lambda>i. real ((g' + i) mod 10) / 10) [0..<n], g' + n)"
  "gp_sample_y toy_gp_lib (k, X0, y0) X m
     = Inr (map (\<lambda>i. replicate m (if i < length y0 then y0 ! i else 0)) [0..<length X])"
  by (simp_all add: toy_gp_lib_def)

lemma kozeny_values:
  "kozeny_carman 1 0 = Finite 0"
  "kozeny_carman 1 (1/10) = Finite (1/810)"
  "kozeny_carman 1 (1/5) = Finite (1/80)"
  "kozeny_carman 1 (3/10) = Finite (27/490)"
  by (simp_all add: kozeny_carman_def np_divide_def power2_eq_square power3_eq_cube)


section \<open>Properties of \<open>solve_problem\<close>\<close>




text \<open>
  \<^bold>\<open>C10.\<close> The two copies of \<open>solve_problem\<close> agree on every grid, every conductivity
  argument and every behaviour of the external library: they return the same pressure
  vector and the same outflow sum, or raise the same exception. The inflow mask of lab10
  is never read, and \<open>np.amin\<close> cannot raise where \<open>np.amax\<close> on the same row has returned.
\<close>

theorem lab10_lab99_equal:
  "lab10_solve_problem L sd perm = lab99_solve_problem L sd perm"
proof (cases "row1 (nodes sd)")
  case Nil
  then show ?thesis
    by (simp add: lab10_solve_problem_def lab99_solve_problem_def bindE_def Let_def
             split: sum.splits)
next
  case (Cons y ys)
  then show ?thesis
    by (simp add: lab10_solve_problem_def lab99_solve_problem_def bindE_def Let_def)
qed

text \<open>The equality at the one-cell grid, where both copies return pressure 1/2 and outflow 3.\<close>

theorem lab10_lab99_equal_witness:
  "lab10_solve_problem one_cell_lib unit_cell (Scalar 3) = Inr ([1/2], 3)
   \<and> lab99_solve_problem one_cell_lib unit_cell (Scalar 3) = Inr ([1/2], 3)"
  using lab10_lab99_equal [of one_cell_lib unit_cell "Scalar 3"] lab99_unit_cell
  by simp




section \<open>Properties of \<open>generate_perm\<close>\<close>

lemma length_arange: "length (arange a b) = nat \<lceil>b - a\<rceil>"
  by (simp add: arange_def)

lemma length_lattice: "length (lattice sp) = (length sp)\<^sup>2"
proof -
  have "length (concat (map (\<lambda>a. map (\<lambda>b. (a, b)) sp) xs)) = length xs * length sp" for xs
    by (induction xs) simp_all
  then show ?thesis by (simp add: lattice_def power2_eq_square)
qed

lemma length_concat_rows:
  "\<forall>r \<in> set S. length r = n \<Longrightarrow> length (concat S) = length S * n"
  by (induction S) simp_all

lemma lattice_side_square_iff:
  "(nat \<lceil>sqrt (real N)\<rceil>)\<^sup>2 = N \<longleftrightarrow> (\<exists>m. N = m\<^sup>2)"
proof
  assume "(nat \<lceil>sqrt (real N)\<rceil>)\<^sup>2 = N"
  then have "N = (nat \<lceil>sqrt (real N)\<rceil>)\<^sup>2" by simp
  then show "\<exists>m. N = m\<^sup>2" by blast
next
  assume "\<exists>m. N = m\<^sup>2"
  then obtain m where m: "N = m\<^sup>2" by blast
  have "sqrt (real N) = real m"
    by (simp add: m)
  then have "nat \<lceil>sqrt (real N)\<rceil> = m"
    by simp
  then show "(nat \<lceil>sqrt (real N)\<rceil>)\<^sup>2 = N"
    by (simp add: m)
qed

lemma generate_perm_InrE:
  assumes ok: "generate_perm L sd params kw g = (Inr perm, g')"
  obtains g1 k gp y gp' S where
    "random_seed L (kw_seed kw) g = Inr g1"
    "RBF L params = Inr k"
    "GaussianProcessRegressor L k = Inr gp"
    "random_rand L (length (lattice (arange 1 (sqrt (real (num_cells sd)) + 1)))) g1 = (y, g')"
    "gp_fit L gp (lattice (arange 1 (sqrt (real (num_cells sd)) + 1))) y = Inr gp'"
    "gp_sample_y L gp' (lattice (arange 1 (sqrt (real (num_cells sd)) + 1))) 1 = Inr S"
    "perm = map (kozeny_carman (case kw_perm_ref kw of None \<Rightarrow> 1 | Some r \<Rightarrow> r))
              (map abs (concat S))"
proof -
  let ?xy = "lattice (arange 1 (sqrt (real (num_cells sd)) + 1))"
  from ok obtain g1 where s1: "random_seed L (kw_seed kw) g = Inr g1"
    by (cases "random_seed L (kw_seed kw) g") (simp_all add: generate_perm_def)
  from ok s1 obtain k where s2: "RBF L params = Inr k"
    by (cases "RBF L params") (simp_all add: generate_perm_def)
  from ok s1 s2 obtain gp where s3: "GaussianProcessRegressor L k = Inr gp"
    by (cases "GaussianProcessRegressor L k") (simp_all add: generate_perm_def)
  obtain y g2 where s4: "random_rand L (length ?xy) g1 = (y, g2)"
    by (cases "random_rand L (length ?xy) g1")
  from ok s1 s2 s3 s4 obtain gp' where s5: "gp_fit L gp ?xy y = Inr gp'"
    by (cases "gp_fit L gp ?xy y") (simp_all add: generate_perm_def Let_def)
  from ok s1 s2 s3 s4 s5 obtain S where s6: "gp_sample_y L gp' ?xy 1 = Inr S"
    by (cases "gp_sample_y L gp' ?xy 1") (simp_all add: generate_perm_def Let_def)
  from ok s1 s2 s3 s4 s5 s6
  have "g' = g2"
    and "perm = map (kozeny_carman (case kw_perm_ref kw of None \<Rightarrow> 1 | Some r \<Rightarrow> r))
                 (map abs (concat S))"
    by (simp_all add: generate_perm_def Let_def)
  with s1 s2 s3 s4 s5 s6 that show thesis by blast
qed



lemma toy_run:
  "generate_perm toy_gp_lib two_cells l \<lparr>kw_seed = Some 0, kw_perm_ref = None\<rparr> 7
     = (Inr [Finite 0, Finite (1/810), Finite (1/80), Finite (27/490)], 4)"
  by (simp add: generate_perm_def two_cells_def arange_two lattice_1_2
        toy_calls kozeny_values Let_def upt_0_4)

lemma toy_shape:
  "gp_sample_y toy_gp_lib gp X n = Inr S \<Longrightarrow> length S = length X \<and> (\<forall>r \<in> set S. length r = n)"
  by (cases gp) (auto simp: toy_calls)

lemma ceiling_sqrt_two: "\<lceil>sqrt 2\<rceil> = 2"
proof -
  have "\<lceil>sqrt 2\<rceil> = int 1 + 1"
    by (rule ceiling_sqrt_eq) simp_all
  then show ?thesis by simp
qed

text \<open>
  \<^bold>\<open>C3.\<close> Whenever \<open>generate_perm\<close> returns, and \<open>gp.sample_y\<close> keeps its shape contract
  (one row per query point, \<open>n_samples\<close> entries per row), the array has one entry per
  point of the square lattice of side \<open>ceil(sqrt(num_cells))\<close>: its length is that side
  squared, which is not \<open>num_cells\<close> unless \<open>num_cells\<close> is a perfect square. The grid enters
  only through \<open>num_cells\<close>: two grids with the same cell count give the same result and
  the same generator state.
\<close>

theorem generate_perm_lattice_size:
  assumes shape: "\<And>gp X n S. gp_sample_y L gp X n = Inr S \<Longrightarrow>
                    length S = length X \<and> (\<forall>r \<in> set S. length r = n)"
    and ok: "generate_perm L sd params kw g = (Inr perm, g')"
  shows "length perm = (nat \<lceil>sqrt (real (num_cells sd))\<rceil>)\<^sup>2
       \<and> length perm = length (lattice (arange 1 (sqrt (real (num_cells sd)) + 1)))
       \<and> (length perm = num_cells sd \<longleftrightarrow> (\<exists>m. num_cells sd = m\<^sup>2))
       \<and> (\<forall>sd'. num_cells sd' = num_cells sd \<longrightarrow>
             generate_perm L sd' params kw g = generate_perm L sd params kw g)"
proof -
  let ?xy = "lattice (arange 1 (sqrt (real (num_cells sd)) + 1))"
  from ok obtain gp S where S: "gp_sample_y L gp ?xy 1 = Inr S"
    and perm: "length perm = length (concat S)"
    by (rule generate_perm_InrE) simp
  from shape [OF S] have rows: "length S = length ?xy" and cols: "\<forall>r \<in> set S. length r = 1"
    by blast+
  have "length (concat S) = length S * 1"
    using cols by (rule length_concat_rows)
  then have "length (concat S) = length ?xy"
    by (simp only: rows mult_1_right)
  with perm have len: "length perm = length ?xy" by simp
  have side: "length ?xy = (nat \<lceil>sqrt (real (num_cells sd))\<rceil>)\<^sup>2"
    by (simp add: length_lattice length_arange)
  have only_num_cells: "\<forall>sd'. num_cells sd' = num_cells sd \<longrightarrow>
             generate_perm L sd' params kw g = generate_perm L sd params kw g"
  proof (intro allI impI)
    fix sd' :: grid
    assume eq: "num_cells sd' = num_cells sd"
    show "generate_perm L sd' params kw g = generate_perm L sd params kw g"
      unfolding generate_perm_def eq by (rule refl)
  qed
  from len side have sq: "length perm = (nat \<lceil>sqrt (real (num_cells sd))\<rceil>)\<^sup>2"
    by simp
  then have "length perm = num_cells sd \<longleftrightarrow> (\<exists>m. num_cells sd = m\<^sup>2)"
    by (simp only: lattice_side_square_iff)
  with sq len only_num_cells show ?thesis
    by blast
qed

theorem generate_perm_lattice_size_witness:
  "generate_perm toy_gp_lib two_cells 1 \<lparr>kw_seed = Some 0, kw_perm_ref = None\<rparr> 7
     = (Inr [Finite 0, Finite (1/810), Finite (1/80), Finite (27/490)], 4)
   \<and> num_cells two_cells = 2
   \<and> length [Finite 0, Finite (1/810), Finite (1/80), Finite (27/490)]
       = (nat \<lceil>sqrt (real (num_cells two_cells))\<rceil>)\<^sup>2
   \<and> (nat \<lceil>sqrt (real (num_cells two_cells))\<rceil>)\<^sup>2 = 4
   \<and> generate_perm toy_gp_lib (unit_cell\<lparr>num_cells := 2\<rparr>) 1
         \<lparr>kw_seed = Some 0, kw_perm_ref = None\<rparr> 7
       = generate_perm toy_gp_lib two_cells 1 \<lparr>kw_seed = Some 0, kw_perm_ref = None\<rparr> 7"
proof -
  have inst: "length [Finite 0, Finite (1/810), Finite (1/80), Finite (27/490)]
         = (nat \<lceil>sqrt (real (num_cells two_cells))\<rceil>)\<^sup>2
       \<and> length [Finite 0, Finite (1/810), Finite (1/80), Finite (27/490)]
         = length (lattice (arange 1 (sqrt (real (num_cells two_cells)) + 1)))
       \<and> (length [Finite 0, Finite (1/810), Finite (1/80), Finite (27/490)] = num_cells two_cells
            \<longleftrightarrow> (\<exists>m. num_cells two_cells = m\<^sup>2))
       \<and> (\<forall>sd'. num_cells sd' = num_cells two_cells \<longrightarrow>
             generate_perm toy_gp_lib sd' 1 \<lparr>kw_seed = Some 0, kw_perm_ref = None\<rparr> 7
               = generate_perm toy_gp_lib two_cells 1 \<lparr>kw_seed = Some 0, kw_perm_ref = None\<rparr> 7)"
  proof (rule generate_perm_lattice_size)
    fix gp :: "real \<times> (real \<times> real) list \<times> real list" and X n S
    assume "gp_sample_y toy_gp_lib gp X n = Inr S"
    then show "length S = length X \<and> (\<forall>r \<in> set S. length r = n)"
      by (rule toy_shape)
  next
    show "generate_perm toy_gp_lib two_cells 1 \<lparr>kw_seed = Some 0, kw_perm_ref = None\<rparr> 7
            = (Inr [Finite 0, Finite (1/810), Finite (1/80), Finite (27/490)], 4)"
      by (rule toy_run)
  qed
  have n: "num_cells two_cells = 2"
    by (simp add: two_cells_def)
  have side: "(nat \<lceil>sqrt (real (num_cells two_cells))\<rceil>)\<^sup>2 = 4"
    by (simp add: n ceiling_sqrt_two)
  have "num_cells (unit_cell\<lparr>num_cells := 2\<rparr>) = num_cells two_cells"
    by (simp add: n)
  with inst have same: "generate_perm toy_gp_lib (unit_cell\<lparr>num_cells := 2\<rparr>) 1
         \<lparr>kw_seed = Some 0, kw_perm_ref = None\<rparr> 7
       = generate_perm toy_gp_lib two_cells 1 \<lparr>kw_seed = Some 0, kw_perm_ref = None\<rparr> 7"
    by blast
  from inst have "length [Finite 0, Finite (1/810), Finite (1/80), Finite (27/490)]
       = (nat \<lceil>sqrt (real (num_cells two_cells))\<rceil>)\<^sup>2"
    by blast
  with toy_run [of 1] n side same show ?thesis
    by blast
qed










section \<open>The file loader\<close>

text \<open>
  \<^bold>\<open>C9.\<close> The module binds no name \<open>skip\<close>, the function has no such local, and Python
  has no such builtin: every call of \<open>generate_\<close>, for every file name and every
  behaviour of the library, raises \<open>NameError\<close> for \<open>skip\<close> while the arguments of
  \<open>np.loadtxt\<close> are evaluated, before anything is loaded or built.
\<close>

lemma resolve_local:
  "resolve [(n, v)] gl bi n = Inr v"
  by (simp add: resolve_def)

lemma resolve_global:
  assumes "name \<notin> fst ` set lo" "name \<in> fst ` set gl"
  shows "\<exists>v. resolve lo gl bi name = Inr v"
proof -
  have "map_of lo name = None"
    using assms(1) by (simp add: map_of_eq_None_iff)
  moreover obtain v where "map_of gl name = Some v"
    using assms(2) by (cases "map_of gl name") (simp_all add: map_of_eq_None_iff)
  ultimately show ?thesis
    by (simp add: resolve_def)
qed

lemma resolve_unbound:
  assumes "name \<notin> fst ` set lo" "name \<notin> fst ` set gl" "name \<notin> fst ` set bi"
  shows "resolve lo gl bi name = Inl (NameError name)"
  using assms by (simp add: resolve_def map_of_eq_None_iff [THEN iffD2])

theorem generate_from_file_name_error:
  fixes L :: "('obj, 'arr, 'e) io_lib"
  assumes "map fst globals = module_globals" and "''skip'' \<notin> fst ` set builtins"
  shows "generate_from_file L globals builtins file_name = Inl (NameError ''skip'')"
proof -
  have names: "fst ` set globals = set module_globals"
    using assms(1) by (metis set_map)
  then have "''np'' \<in> fst ` set globals"
    by (simp add: module_globals_def)
  then obtain np where np: "resolve [(''file_name'', file_name)] globals builtins ''np''
                              = (Inr np :: 'e exn + 'obj)"
    using resolve_global [of "''np''" "[(''file_name'', file_name)]" globals builtins] by auto
  from names have "''skip'' \<notin> fst ` set globals"
    by (simp add: module_globals_def)
  then have "resolve [(''file_name'', file_name)] globals builtins ''skip''
               = (Inl (NameError ''skip'') :: 'e exn + 'obj)"
    using assms(2) by (intro resolve_unbound) simp_all
  with np show ?thesis
    by (simp add: generate_from_file_def resolve_local bindE_def)
qed

theorem generate_from_file_name_error_witness:
  "map fst toy_globals = module_globals \<and> ''skip'' \<notin> fst ` set toy_builtins
   \<and> generate_from_file toy_io_lib toy_globals toy_builtins ''porosity.txt''
       = Inl (NameError ''skip'')"
proof -
  have g: "map fst toy_globals = module_globals"
    by (simp add: toy_globals_def comp_def)
  have b: "''skip'' \<notin> fst ` set toy_builtins"
    by (simp add: toy_builtins_def)
  from generate_from_file_name_error [OF g b] g b show ?thesis by simp
qed

section \<open>The flow solve on the two-point flux model\<close>

subsection \<open>Running \<open>solve_problem\<close> on the model\<close>

lemma bindE_Inr_iff: "bindE m f = Inr r \<longleftrightarrow> (\<exists>a. m = Inr a \<and> f a = Inr r)"
  by (cases m) (simp_all add: bindE_def)

lemma ext_Inr_iff: "ext m = Inr a \<longleftrightarrow> m = Inr a"
  by (cases m) (simp_all add: ext_def)

lemma ext_if_Inr_iff:
  "ext (if c then Inl e else Inr v) = Inr a \<longleftrightarrow> \<not> c \<and> v = a"
  "ext (if c then Inr v else Inl e) = Inr a \<longleftrightarrow> c \<and> v = a"
  by (simp_all add: ext_def)

lemma tpfa_lib_calls:
  "SecondOrderTensor (tpfa_lib conn S) kxx = Inr kxx"
  "BoundaryCondition (tpfa_lib conn S) sd faces labels
     = (if faces = [] then Inl ''no boundary faces'' else Inr (faces, labels))"
  "initialize_default_data (tpfa_lib conn S) sd key ps = Inr ps"
  "tpfa_discretize (tpfa_lib conn S) key sd data
     = (if well_posed conn (second_order_tensor data) (bc_values data) then Inr data
        else Inl ''ill-posed'')"
  "tpfa_assemble_matrix_rhs (tpfa_lib conn S) key sd data
     = Inr (tpfa_matrix conn (second_order_tensor data),
            tpfa_rhs conn (second_order_tensor data) (bc_values data))"
  "discretization_matrices (tpfa_lib conn S) data key
     = Inr [''flux'' \<mapsto> flux_matrix conn (second_order_tensor data),
            ''bound_flux'' \<mapsto> bound_flux_matrix conn (second_order_tensor data)]"
  "spsolve (tpfa_lib conn S) = S"
  by (simp_all add: tpfa_lib_def)

lemma lab99_tpfa_runI:
  assumes "times_ones perm (num_cells sd) = (Inr kxx :: string exn + real list)"
    and "boundary_faces sd = (Inr bf :: string exn + nat list)"
    and "take_indices (face_centers sd) bf = (Inr bfc :: string exn + point list)"
    and "amax (row1 (nodes sd)) = (Inr ymax :: string exn + real)"
    and "bf \<noteq> []"
    and "well_posed conn kxx (bc_val_of sd)"
    and "S (tpfa_matrix conn kxx) (tpfa_rhs conn kxx (bc_val_of sd)) = Inr p"
    and "matvec (flux_matrix conn kxx) p = (Inr fp :: string exn + real list)"
    and "matvec (bound_flux_matrix conn kxx) (bc_val_of sd) = (Inr bp :: string exn + real list)"
    and "broadcast2 (\<lambda>a b. a + b) fp bp = (Inr q :: string exn + real list)"
    and "mask_select bf (map (\<lambda>y. isclose y ymax) (row1 bfc)) = (Inr ofs :: string exn + nat list)"
    and "take_indices q ofs = (Inr qo :: string exn + real list)"
  shows "lab99_solve_problem (tpfa_lib conn S) sd perm = Inr (p, sum_list qo)"
  using assms
  by (simp add: lab99_solve_problem_def tpfa_lib_calls bindE_def ext_def getitem_def Let_def)

lemma lab99_tpfa_runE:
  assumes "lab99_solve_problem (tpfa_lib conn S) sd perm = Inr (p, s)"
  obtains kxx bf bfc ymax fp bp q ofs qo where
    "times_ones perm (num_cells sd) = (Inr kxx :: string exn + real list)"
    "boundary_faces sd = (Inr bf :: string exn + nat list)"
    "take_indices (face_centers sd) bf = (Inr bfc :: string exn + point list)"
    "amax (row1 (nodes sd)) = (Inr ymax :: string exn + real)"
    "bf \<noteq> []"
    "well_posed conn kxx (bc_val_of sd)"
    "S (tpfa_matrix conn kxx) (tpfa_rhs conn kxx (bc_val_of sd)) = Inr p"
    "matvec (flux_matrix conn kxx) p = (Inr fp :: string exn + real list)"
    "matvec (bound_flux_matrix conn kxx) (bc_val_of sd) = (Inr bp :: string exn + real list)"
    "broadcast2 (\<lambda>a b. a + b) fp bp = (Inr q :: string exn + real list)"
    "mask_select bf (map (\<lambda>y. isclose y ymax) (row1 bfc)) = (Inr ofs :: string exn + nat list)"
    "take_indices q ofs = (Inr qo :: string exn + real list)"
    "s = sum_list qo"
  using assms
  by (auto simp: lab99_solve_problem_def tpfa_lib_calls bindE_Inr_iff ext_Inr_iff
        getitem_def Let_def split: if_splits)

subsection \<open>The matrices applied to a vector\<close>

lemma sum_list_upt: "sum_list (map g [0..<n]) = (\<Sum>i<n. g i)"
  by (simp add: interv_sum_list_conv_sum_set_nat atLeast0LessThan)

lemma sum_list_faces: "sum_list (map g fs) = (\<Sum>i<length fs. g (fs ! i))"
proof -
  have "map g fs = map (\<lambda>i. g (fs ! i)) [0..<length fs]"
    by (rule nth_equalityI) simp_all
  then show ?thesis by (simp only: sum_list_upt)
qed

lemma row_times_vector:
  assumes "length v = n"
  shows "sum_list (map2 (\<lambda>a x. a * x) (map g [0..<n]) v) = (\<Sum>c<n. g c * v ! c)"
proof -
  have "map2 (\<lambda>a x. a * x) (map g [0..<n]) v = map (\<lambda>c. g c * v ! c) [0..<n]"
    using assms by (intro nth_equalityI) simp_all
  then show ?thesis by (simp only: sum_list_upt)
qed



lemma div_coef_sum:
  assumes "face_ok n f"
  shows "(\<Sum>c<n. div_coef f c * x ! c) = jump f x"
proof (cases "f_neighbour f")
  case None
  then have "(\<Sum>c<n. div_coef f c * x ! c) = (\<Sum>c<n. if c = f_owner f then x ! c else 0)"
    by (intro sum.cong) (simp_all add: div_coef_def)
  also have "\<dots> = x ! f_owner f"
    using assms by (simp add: face_ok_def)
  finally show ?thesis using None by (simp add: jump_def)
next
  case (Some m)
  then have m: "m < n" "m \<noteq> f_owner f" "f_owner f < n"
    using assms by (simp_all add: face_ok_def)
  have "(\<Sum>c<n. div_coef f c * x ! c)
          = (\<Sum>c<n. (if c = f_owner f then x ! c else 0) + (if c = m then - x ! c else 0))"
    using Some m by (intro sum.cong) (auto simp: div_coef_def)
  also have "\<dots> = x ! f_owner f - x ! m"
    using m by (simp add: sum.distrib)
  finally show ?thesis using Some by (simp add: jump_def)
qed

lemma well_posed_face:
  assumes "well_posed conn kxx bcv" "i < length (c_faces conn)"
  shows "face_ok (n_cells conn) (c_faces conn ! i)"
  using assms by (simp add: well_posed_def list_all_length)

lemma matvec_flux:
  assumes wp: "well_posed conn kxx bcv" and len: "length x = n_cells conn"
  shows "matvec (flux_matrix conn kxx) x
           = Inr (map (\<lambda>i. transmissibility kxx (c_faces conn ! i) * jump (c_faces conn ! i) x)
                   [0..<length (c_faces conn)])"
proof -
  have rows: "\<forall>r \<in> set (flux_matrix conn kxx). length r = length x"
    using len by (auto simp: flux_matrix_def)
  have "map (\<lambda>r. sum_list (map2 (\<lambda>a x. a * x) r x)) (flux_matrix conn kxx)
          = map (\<lambda>i. transmissibility kxx (c_faces conn ! i) * jump (c_faces conn ! i) x)
              [0..<length (c_faces conn)]"
  proof (rule nth_equalityI)
    show "length (map (\<lambda>r. sum_list (map2 (\<lambda>a x. a * x) r x)) (flux_matrix conn kxx))
            = length (map (\<lambda>i. transmissibility kxx (c_faces conn ! i) * jump (c_faces conn ! i) x)
                        [0..<length (c_faces conn)])"
      by (simp add: flux_matrix_def)
  next
    fix i
    assume "i < length (map (\<lambda>r. sum_list (map2 (\<lambda>a x. a * x) r x)) (flux_matrix conn kxx))"
    then have i: "i < length (c_faces conn)"
      by (simp add: flux_matrix_def)
    let ?f = "c_faces conn ! i"
    have "sum_list (map2 (\<lambda>a x. a * x)
                     (map (\<lambda>c. transmissibility kxx ?f * div_coef ?f c) [0..<n_cells conn]) x)
            = (\<Sum>c<n_cells conn. transmissibility kxx ?f * div_coef ?f c * x ! c)"
      using len by (rule row_times_vector)
    also have "\<dots> = transmissibility kxx ?f * (\<Sum>c<n_cells conn. div_coef ?f c * x ! c)"
      by (simp add: sum_distrib_left mult.assoc)
    also have "\<dots> = transmissibility kxx ?f * jump ?f x"
      using well_posed_face [OF wp i] by (simp add: div_coef_sum)
    finally show "map (\<lambda>r. sum_list (map2 (\<lambda>a x. a * x) r x)) (flux_matrix conn kxx) ! i
            = map (\<lambda>i. transmissibility kxx (c_faces conn ! i) * jump (c_faces conn ! i) x)
                [0..<length (c_faces conn)] ! i"
      using i by (simp add: flux_matrix_def)
  qed
  with rows show ?thesis
    by (simp add: matvec_def)
qed

lemma matvec_bound_flux:
  assumes len: "length bcv = length (c_faces conn)"
  shows "matvec (bound_flux_matrix conn kxx) bcv
           = Inr (map (\<lambda>i. bound_coef kxx (c_faces conn ! i) * bcv ! i)
                   [0..<length (c_faces conn)])"
proof -
  have rows: "\<forall>r \<in> set (bound_flux_matrix conn kxx). length r = length bcv"
    using len by (auto simp: bound_flux_matrix_def)
  have "map (\<lambda>r. sum_list (map2 (\<lambda>a x. a * x) r bcv)) (bound_flux_matrix conn kxx)
          = map (\<lambda>i. bound_coef kxx (c_faces conn ! i) * bcv ! i) [0..<length (c_faces conn)]"
  proof (rule nth_equalityI)
    show "length (map (\<lambda>r. sum_list (map2 (\<lambda>a x. a * x) r bcv)) (bound_flux_matrix conn kxx))
            = length (map (\<lambda>i. bound_coef kxx (c_faces conn ! i) * bcv ! i)
                        [0..<length (c_faces conn)])"
      by (simp add: bound_flux_matrix_def)
  next
    fix i
    assume "i < length (map (\<lambda>r. sum_list (map2 (\<lambda>a x. a * x) r bcv))
                          (bound_flux_matrix conn kxx))"
    then have i: "i < length (c_faces conn)"
      by (simp add: bound_flux_matrix_def)
    let ?f = "c_faces conn ! i"
    have "sum_list (map2 (\<lambda>a x. a * x)
                     (map (\<lambda>j. if j = i then bound_coef kxx ?f else 0)
                          [0..<length (c_faces conn)]) bcv)
            = (\<Sum>j<length (c_faces conn). (if j = i then bound_coef kxx ?f else 0) * bcv ! j)"
      using len by (rule row_times_vector)
    also have "\<dots> = (\<Sum>j<length (c_faces conn). if j = i then bound_coef kxx ?f * bcv ! j else 0)"
      by (intro sum.cong) simp_all
    also have "\<dots> = bound_coef kxx ?f * bcv ! i"
      using i by simp
    finally show "map (\<lambda>r. sum_list (map2 (\<lambda>a x. a * x) r bcv)) (bound_flux_matrix conn kxx) ! i
            = map (\<lambda>i. bound_coef kxx (c_faces conn ! i) * bcv ! i)
                [0..<length (c_faces conn)] ! i"
      using i by (simp add: bound_flux_matrix_def)
  qed
  with rows show ?thesis
    by (simp add: matvec_def)
qed

lemma recovered_flux:
  assumes wp: "well_posed conn kxx bcv" and len: "length x = n_cells conn"
    and fp: "matvec (flux_matrix conn kxx) x = (Inr fp :: 'e exn + real list)"
    and bp: "matvec (bound_flux_matrix conn kxx) bcv = (Inr bp :: 'e exn + real list)"
  shows "broadcast2 (\<lambda>a b. a + b) fp bp
           = (Inr (map (face_flux conn kxx bcv x) [0..<length (c_faces conn)]) :: 'e exn + real list)"
proof -
  have lb: "length bcv = length (c_faces conn)"
    using wp by (simp add: well_posed_def)
  have fp': "fp = map (\<lambda>i. transmissibility kxx (c_faces conn ! i) * jump (c_faces conn ! i) x)
                    [0..<length (c_faces conn)]"
    using fp matvec_flux [OF wp len, where ?'a = 'e] by simp
  have bp': "bp = map (\<lambda>i. bound_coef kxx (c_faces conn ! i) * bcv ! i) [0..<length (c_faces conn)]"
    using bp matvec_bound_flux [OF lb, where ?'a = 'e] by simp
  have "map2 (\<lambda>a b. a + b) fp bp = map (face_flux conn kxx bcv x) [0..<length (c_faces conn)]"
    unfolding fp' bp' by (rule nth_equalityI) (simp_all add: face_flux_def)
  moreover have "length fp = length bp"
    by (simp add: fp' bp')
  ultimately show ?thesis
    by (simp add: broadcast2_def)
qed

lemma matvec_tpfa_matrix:
  assumes wp: "well_posed conn kxx bcv" and len: "length x = n_cells conn"
  shows "matvec (tpfa_matrix conn kxx) x
           = Inr (map (\<lambda>c. \<Sum>i<length (c_faces conn).
                         div_coef (c_faces conn ! i) c
                         * (transmissibility kxx (c_faces conn ! i) * jump (c_faces conn ! i) x))
                   [0..<n_cells conn])"
proof -
  let ?N = "n_cells conn" and ?M = "length (c_faces conn)"
  let ?f = "\<lambda>i. c_faces conn ! i"
  have rows: "\<forall>r \<in> set (tpfa_matrix conn kxx). length r = length x"
    using len by (auto simp: tpfa_matrix_def)
  have "map (\<lambda>r. sum_list (map2 (\<lambda>a x. a * x) r x)) (tpfa_matrix conn kxx)
          = map (\<lambda>c. \<Sum>i<?M. div_coef (?f i) c * (transmissibility kxx (?f i) * jump (?f i) x)) [0..<?N]"
  proof (rule nth_equalityI)
    show "length (map (\<lambda>r. sum_list (map2 (\<lambda>a x. a * x) r x)) (tpfa_matrix conn kxx))
            = length (map (\<lambda>c. \<Sum>i<?M. div_coef (?f i) c * (transmissibility kxx (?f i) * jump (?f i) x))
                        [0..<?N])"
      by (simp add: tpfa_matrix_def)
  next
    fix c
    assume "c < length (map (\<lambda>r. sum_list (map2 (\<lambda>a x. a * x) r x)) (tpfa_matrix conn kxx))"
    then have c: "c < ?N"
      by (simp add: tpfa_matrix_def)
    have "sum_list (map2 (\<lambda>a x. a * x)
             (map (\<lambda>c'. sum_list (map (\<lambda>f. div_coef f c * (transmissibility kxx f * div_coef f c'))
                                      (c_faces conn))) [0..<?N]) x)
            = (\<Sum>c'<?N. sum_list (map (\<lambda>f. div_coef f c * (transmissibility kxx f * div_coef f c'))
                                      (c_faces conn)) * x ! c')"
      using len by (rule row_times_vector)
    also have "\<dots> = (\<Sum>c'<?N. \<Sum>i<?M.
                          div_coef (?f i) c * (transmissibility kxx (?f i) * div_coef (?f i) c') * x ! c')"
      by (simp add: sum_list_faces sum_distrib_right)
    also have "\<dots> = (\<Sum>i<?M. \<Sum>c'<?N.
                          div_coef (?f i) c * (transmissibility kxx (?f i) * div_coef (?f i) c') * x ! c')"
      by (rule sum.swap)
    also have "\<dots> = (\<Sum>i<?M. div_coef (?f i) c
                          * (transmissibility kxx (?f i) * (\<Sum>c'<?N. div_coef (?f i) c' * x ! c')))"
      by (simp add: sum_distrib_left mult.assoc)
    also have "\<dots> = (\<Sum>i<?M. div_coef (?f i) c * (transmissibility kxx (?f i) * jump (?f i) x))"
      using well_posed_face [OF wp] by (intro sum.cong) (simp_all add: div_coef_sum)
    finally show "map (\<lambda>r. sum_list (map2 (\<lambda>a x. a * x) r x)) (tpfa_matrix conn kxx) ! c
            = map (\<lambda>c. \<Sum>i<?M. div_coef (?f i) c * (transmissibility kxx (?f i) * jump (?f i) x)) [0..<?N] ! c"
      using c by (simp add: tpfa_matrix_def)
  qed
  with rows show ?thesis
    by (simp add: matvec_def)
qed

lemma tpfa_rhs_sum:
  "tpfa_rhs conn kxx bcv
     = map (\<lambda>c. \<Sum>i<length (c_faces conn).
              div_coef (c_faces conn ! i) c * (- bound_coef kxx (c_faces conn ! i) * bcv ! i))
         [0..<n_cells conn]"
  by (simp add: tpfa_rhs_def sum_list_upt)

text \<open>The system says that the fluxes through the faces of every cell balance.\<close>

lemma solves_iff_balance:
  assumes wp: "well_posed conn kxx bcv" and len: "length x = n_cells conn"
  shows "solves (tpfa_matrix conn kxx) (tpfa_rhs conn kxx bcv) x \<longleftrightarrow>
           (\<forall>c<n_cells conn. (\<Sum>i<length (c_faces conn).
               div_coef (c_faces conn ! i) c * face_flux conn kxx bcv x i) = 0)"
proof -
  let ?N = "n_cells conn" and ?M = "length (c_faces conn)"
  let ?f = "\<lambda>i. c_faces conn ! i"
  let ?lhs = "\<lambda>c. \<Sum>i<?M. div_coef (?f i) c * (transmissibility kxx (?f i) * jump (?f i) x)"
  let ?rhs = "\<lambda>c. \<Sum>i<?M. div_coef (?f i) c * (- bound_coef kxx (?f i) * bcv ! i)"
  have "solves (tpfa_matrix conn kxx) (tpfa_rhs conn kxx bcv) x
          \<longleftrightarrow> map ?lhs [0..<?N] = map ?rhs [0..<?N]"
    unfolding solves_def matvec_tpfa_matrix [OF wp len] tpfa_rhs_sum by simp
  also have "\<dots> \<longleftrightarrow> (\<forall>c<?N. ?lhs c = ?rhs c)"
    by (auto simp: list_eq_iff_nth_eq)
  also have "\<dots> \<longleftrightarrow> (\<forall>c<?N. ?lhs c - ?rhs c = 0)"
    by simp
  also have "\<dots> \<longleftrightarrow> (\<forall>c<?N. (\<Sum>i<?M. div_coef (?f i) c * face_flux conn kxx bcv x i) = 0)"
    by (simp add: face_flux_def sum_subtractf [symmetric] algebra_simps)
  finally show ?thesis .
qed

lemma solves_length:
  assumes "solves (tpfa_matrix conn kxx) b x" "0 < n_cells conn"
  shows "length x = n_cells conn"
proof -
  from assms(1) have "\<forall>r \<in> set (tpfa_matrix conn kxx). length r = length x"
    by (simp add: solves_def matvec_def split: if_splits)
  moreover have "map (\<lambda>c'. sum_list (map (\<lambda>f. div_coef f 0 * (transmissibility kxx f * div_coef f c'))
                                      (c_faces conn))) [0..<n_cells conn]
                   \<in> set (tpfa_matrix conn kxx)"
    using assms(2) by (auto simp: tpfa_matrix_def)
  ultimately show ?thesis
    by fastforce
qed

subsection \<open>The Cartesian grid is well formed\<close>

lemma cell_index_less:
  fixes i j nx ny :: nat
  assumes "i < nx" "j < ny"
  shows "i + nx * j < nx * ny"
proof -
  have "i + nx * j < nx * (j + 1)"
    using assms(1) by simp
  also have "\<dots> \<le> nx * ny"
    using assms(2) by (intro mult_le_mono2) simp
  finally show ?thesis .
qed

lemma x_face_ok:
  assumes "0 < nx" "0 < ny" "g < (nx + 1) * ny"
  shows "face_ok (nx * ny) (x_face nx ny g)"
proof -
  let ?i = "g mod (nx + 1)" and ?j = "g div (nx + 1)"
  have j: "?j < ny"
    using assms(3) by (simp add: less_mult_imp_div_less mult.commute)
  have i: "?i \<le> nx"
    using mod_less_divisor [of "nx + 1" g] by simp
  have o: "(if ?i = 0 then 0 else ?i - 1) < nx"
  proof (cases "?i = 0")
    case True
    then show ?thesis using assms(1) by simp
  next
    case False
    then have "?i - 1 < nx" using i by arith
    with False show ?thesis by simp
  qed
  have owner: "(if ?i = 0 then 0 else ?i - 1) + nx * ?j < nx * ny"
    using o j by (rule cell_index_less)
  have nb: "?i < nx \<Longrightarrow> ?i + nx * ?j < nx * ny"
    using j by (intro cell_index_less)
  show ?thesis
    using owner nb assms(1,2)
    by (auto simp: face_ok_def x_face_def Let_def)
qed

lemma y_face_ok:
  assumes "0 < nx" "0 < ny" "g < nx * (ny + 1)"
  shows "face_ok (nx * ny) (y_face nx ny g)"
proof -
  have "nx * 1 \<le> nx * ny"
    using assms(2) by (intro mult_le_mono2) simp
  then have "nx \<le> nx * ny"
    by (simp only: mult_1_right)
  then have first_row: "g < nx \<Longrightarrow> g < nx * ny"
    by (rule less_le_trans [rotated])
  have "0 < nx * ny"
    using assms(1,2) by simp
  moreover have "g < nx + nx * ny"
    using assms(3) by (simp add: algebra_simps)
  ultimately have "g - nx < nx * ny"
    by arith
  then show ?thesis
    using assms first_row by (auto simp: face_ok_def y_face_def)
qed

lemma cart_lengths:
  "length (c_faces (cart_conn nx ny)) = (nx + 1) * ny + nx * (ny + 1)"
  "length (bc_val_of (cart_grid nx ny)) = (nx + 1) * ny + nx * (ny + 1)"
  "n_cells (cart_conn nx ny) = nx * ny"
  "num_cells (cart_grid nx ny) = nx * ny"
  "length (linear_field nx ny) = nx * ny"
  by (simp_all add: cart_conn_def cart_grid_def bc_val_of_def row1_def linear_field_def)

lemma cart_well_posed:
  assumes "0 < nx" "0 < ny" "0 < k"
  shows "well_posed (cart_conn nx ny) (replicate (nx * ny) k) (bc_val_of (cart_grid nx ny))"
proof -
  have "list_all (face_ok (nx * ny)) (c_faces (cart_conn nx ny))"
    using assms x_face_ok y_face_ok
    by (auto simp: cart_conn_def list_all_iff)
  then show ?thesis
    using assms(3) by (simp add: well_posed_def cart_lengths list_all_iff)
qed

lemma cart_face_x:
  assumes "g < (nx + 1) * ny"
  shows "c_faces (cart_conn nx ny) ! g = x_face nx ny g"
    and "bc_val_of (cart_grid nx ny) ! g = 1 - (real (g div (nx + 1)) + 1/2) / real ny"
  using assms by (simp_all add: cart_conn_def cart_grid_def bc_val_of_def row1_def nth_append)

lemma cart_face_y:
  assumes "g < nx * (ny + 1)"
  shows "c_faces (cart_conn nx ny) ! ((nx + 1) * ny + g) = y_face nx ny g"
    and "bc_val_of (cart_grid nx ny) ! ((nx + 1) * ny + g) = 1 - real (g div nx) / real ny"
  using assms by (simp_all add: cart_conn_def cart_grid_def bc_val_of_def row1_def nth_append)

lemma linear_field_nth:
  assumes "c < nx * ny"
  shows "linear_field nx ny ! c = 1 - (real (c div nx) + 1/2) / real ny"
  using assms by (simp add: linear_field_def)

lemma row_of_cell:
  fixes a j nx :: nat
  assumes "a < nx"
  shows "(a + nx * j) div nx = j"
  using assms by simp

lemma transmissibility_boundary:
  assumes "f_neighbour f = None" "f_owner f < n"
  shows "transmissibility (replicate n k) f = f_area f * (k / f_dist_owner f)"
  using assms by (simp add: transmissibility_def)

lemma transmissibility_interior:
  assumes "f_neighbour f = Some m" "f_owner f < n" "m < n" "f_dist_owner f = d" "f_dist_neighbour f = d"
    "0 < d" "0 < k"
  shows "transmissibility (replicate n k) f = f_area f * (k / (2 * d))"
  using assms by (simp add: transmissibility_def k_harmonic_def field_simps)

subsection \<open>The fluxes of the linear field\<close>

lemma face_flux_x:
  assumes nx: "0 < nx" and ny: "0 < ny" and k: "0 < k" and g: "g < (nx + 1) * ny"
  shows "face_flux (cart_conn nx ny) (replicate (nx * ny) k) (bc_val_of (cart_grid nx ny))
           (linear_field nx ny) g = 0"
proof -
  let ?i = "g mod (nx + 1)" and ?j = "g div (nx + 1)"
  let ?a = "if ?i = 0 then 0 else ?i - 1"
  let ?f = "x_face nx ny g"
  let ?P = "linear_field nx ny"
  have ok: "face_ok (nx * ny) ?f"
    using nx ny g by (rule x_face_ok)
  have a: "?a < nx"
  proof (cases "?i = 0")
    case True
    then show ?thesis using nx by simp
  next
    case False
    have "?i \<le> nx" using mod_less_divisor [of "nx + 1" g] by simp
    with False have "?i - 1 < nx" by arith
    with False show ?thesis by simp
  qed
  have owner: "f_owner ?f = ?a + nx * ?j"
    by (simp add: x_face_def Let_def)
  have "f_owner ?f < nx * ny"
    using ok by (simp add: face_ok_def)
  then have Po: "?P ! f_owner ?f = 1 - (real ?j + 1/2) / real ny"
    using a by (simp add: linear_field_nth owner row_of_cell del: of_nat_add of_nat_mult)
  show ?thesis
  proof (cases "0 < ?i \<and> ?i < nx")
    case True
    then have nb: "f_neighbour ?f = Some (?i + nx * ?j)"
      by (simp add: x_face_def Let_def)
    then have "?i + nx * ?j < nx * ny"
      using ok by (simp add: face_ok_def)
    then have "?P ! (?i + nx * ?j) = 1 - (real ?j + 1/2) / real ny"
      using True by (simp add: linear_field_nth row_of_cell del: of_nat_add of_nat_mult)
    with Po nb have "jump ?f ?P = 0"
      by (simp add: jump_def)
    moreover have "bound_coef (replicate (nx * ny) k) ?f = 0"
      using nb by (simp add: bound_coef_def)
    ultimately show ?thesis
      using g by (simp add: face_flux_def cart_face_x)
  next
    case False
    then have nb: "f_neighbour ?f = None"
      by (auto simp: x_face_def Let_def)
    then have "jump ?f ?P = ?P ! f_owner ?f"
      by (simp add: jump_def)
    moreover have "bound_coef (replicate (nx * ny) k) ?f = - transmissibility (replicate (nx * ny) k) ?f"
      using nb by (simp add: bound_coef_def)
    ultimately show ?thesis
      using g Po by (simp add: face_flux_def cart_face_x)
  qed
qed

lemma face_flux_cart_y:
  assumes "g < nx * (ny + 1)"
  shows "face_flux (cart_conn nx ny) K (bc_val_of (cart_grid nx ny)) x ((nx + 1) * ny + g)
           = transmissibility K (y_face nx ny g) * jump (y_face nx ny g) x
             + bound_coef K (y_face nx ny g) * (1 - real (g div nx) / real ny)"
  unfolding face_flux_def cart_face_y [OF assms] by (rule refl)

lemma face_flux_y:
  assumes nx: "0 < nx" and ny: "0 < ny" and k: "0 < k" and g: "g < nx * (ny + 1)"
  shows "face_flux (cart_conn nx ny) (replicate (nx * ny) k) (bc_val_of (cart_grid nx ny))
           (linear_field nx ny) ((nx + 1) * ny + g)
         = (if g < nx then - (k / real nx) else k / real nx)"
proof -
  let ?f = "y_face nx ny g"
  let ?P = "linear_field nx ny"
  let ?K = "replicate (nx * ny) k"
  have ok: "face_ok (nx * ny) ?f"
    using nx ny g by (rule y_face_ok)
  then have o: "f_owner ?f < nx * ny"
    by (simp add: face_ok_def)
  have rnx: "0 < real nx" and rny: "0 < real ny"
    using nx ny by simp_all
  consider (bottom) "g < nx" | (inner) "nx \<le> g" "g < nx * ny" | (top) "nx \<le> g" "nx * ny \<le> g"
    by arith
  then show ?thesis
  proof cases
    case bottom
    then have nb: "f_neighbour ?f = None" and ow: "f_owner ?f = g"
      by (simp_all add: y_face_def)
    have "g div nx = 0"
      using bottom by simp
    then have P: "?P ! g = 1 - (1/2) / real ny"
      using o ow by (simp add: linear_field_nth)
    have t: "transmissibility ?K ?f = (1 / real nx) * (k / (1 / (2 * real ny)))"
      using nb o by (simp add: transmissibility_boundary) (simp add: y_face_def)
    have "face_flux (cart_conn nx ny) ?K (bc_val_of (cart_grid nx ny)) ?P ((nx + 1) * ny + g)
            = transmissibility ?K ?f * (?P ! g - 1)"
      unfolding face_flux_cart_y [OF g] using nb ow \<open>g div nx = 0\<close>
      by (simp add: jump_def bound_coef_def algebra_simps)
    also have "\<dots> = - (k / real nx)"
      using rnx rny by (simp add: t P field_simps)
    finally show ?thesis
      using bottom by simp
  next
    case inner
    then have nb: "f_neighbour ?f = Some g" and ow: "f_owner ?f = g - nx"
      by (simp_all add: y_face_def)
    have "g div nx = Suc ((g - nx) div nx)"
      using nx inner(1) by (rule le_div_geq)
    then have rows: "real (g div nx) = real ((g - nx) div nx) + 1"
      by simp
    have Po: "?P ! (g - nx) = 1 - (real ((g - nx) div nx) + 1/2) / real ny"
      using o ow by (simp add: linear_field_nth)
    have Pn: "?P ! g = 1 - (real (g div nx) + 1/2) / real ny"
      using inner(2) by (simp add: linear_field_nth)
    have t: "transmissibility ?K ?f = (1 / real nx) * (k / (2 * (1 / (2 * real ny))))"
    proof -
      have "transmissibility ?K ?f = f_area ?f * (k / (2 * (1 / (2 * real ny))))"
        using nb o inner(2) rny k
        by (intro transmissibility_interior [where m = g]) (simp_all add: y_face_def)
      then show ?thesis
        by (simp add: y_face_def)
    qed
    have "face_flux (cart_conn nx ny) ?K (bc_val_of (cart_grid nx ny)) ?P ((nx + 1) * ny + g)
            = transmissibility ?K ?f * (?P ! (g - nx) - ?P ! g)"
      unfolding face_flux_cart_y [OF g] using nb ow
      by (simp add: jump_def bound_coef_def)
    also have "\<dots> = k / real nx"
      using rnx rny by (simp add: t Po Pn rows field_simps)
    finally show ?thesis
      using inner by simp
  next
    case top
    then have nb: "f_neighbour ?f = None" and ow: "f_owner ?f = g - nx"
      by (simp_all add: y_face_def)
    have "g < nx * Suc ny"
      using g by simp
    with top(2) have gd: "g div nx = ny"
      by (intro div_nat_eqI) simp_all
    have "g div nx = Suc ((g - nx) div nx)"
      using nx top(1) by (rule le_div_geq)
    with gd have rows: "real ((g - nx) div nx) + 1 = real ny"
      by simp
    have Po: "?P ! (g - nx) = 1 - (real ((g - nx) div nx) + 1/2) / real ny"
      using o ow by (simp add: linear_field_nth)
    have t: "transmissibility ?K ?f = (1 / real nx) * (k / (1 / (2 * real ny)))"
      using nb o by (simp add: transmissibility_boundary) (simp add: y_face_def)
    have "face_flux (cart_conn nx ny) ?K (bc_val_of (cart_grid nx ny)) ?P ((nx + 1) * ny + g)
            = transmissibility ?K ?f * ?P ! (g - nx)"
      unfolding face_flux_cart_y [OF g] using nb ow gd rny
      by (simp add: jump_def bound_coef_def)
    also have "\<dots> = k / real nx"
    proof -
      have e: "real ((g - nx) div nx) = real ny - 1"
        using rows by linarith
      have "?P ! (g - nx) = 1 - (real ny - 1 + 1/2) / real ny"
        unfolding Po e by (rule refl)
      also have "\<dots> = (1/2) / real ny"
        using rny by (simp add: field_simps)
      finally have "?P ! (g - nx) = (1/2) / real ny" .
      then show ?thesis
        using rnx rny by (simp add: t field_simps)
    qed
    finally show ?thesis
      using top by simp
  qed
qed

lemma sum_split_lessThan:
  fixes f :: "nat \<Rightarrow> real"
  shows "(\<Sum>i<a + b. f i) = (\<Sum>i<a. f i) + (\<Sum>g<b. f (a + g))"
  by (induction b) (simp_all add: add.assoc [symmetric])

lemma y_face_balance_term:
  assumes nx: "0 < nx" and c: "c < nx * ny" and g: "g < nx * (ny + 1)"
  shows "div_coef (y_face nx ny g) c * (if g < nx then - q else q)
           = q * ((if g = c + nx then 1 else 0) - (if g = c then 1 else 0))"
proof -
  consider (bottom) "g < nx" | (inner) "nx \<le> g" "g < nx * ny" | (top) "nx \<le> g" "nx * ny \<le> g"
    by arith
  then show ?thesis
  proof cases
    case bottom
    then show ?thesis
      by (simp add: div_coef_def y_face_def)
  next
    case inner
    then show ?thesis
      using nx by (auto simp: div_coef_def y_face_def)
  next
    case top
    then show ?thesis
      using nx c by (auto simp: div_coef_def y_face_def)
  qed
qed

lemma linear_field_balance:
  assumes nx: "0 < nx" and ny: "0 < ny" and k: "0 < k" and c: "c < nx * ny"
  shows "(\<Sum>i<length (c_faces (cart_conn nx ny)).
            div_coef (c_faces (cart_conn nx ny) ! i) c
            * face_flux (cart_conn nx ny) (replicate (nx * ny) k) (bc_val_of (cart_grid nx ny))
                (linear_field nx ny) i) = 0"
proof -
  let ?conn = "cart_conn nx ny"
  let ?q = "face_flux ?conn (replicate (nx * ny) k) (bc_val_of (cart_grid nx ny))
              (linear_field nx ny)"
  let ?Mx = "(nx + 1) * ny" and ?My = "nx * (ny + 1)"
  have "(\<Sum>i<length (c_faces ?conn). div_coef (c_faces ?conn ! i) c * ?q i)
          = (\<Sum>i<?Mx. div_coef (c_faces ?conn ! i) c * ?q i)
            + (\<Sum>g<?My. div_coef (c_faces ?conn ! (?Mx + g)) c * ?q (?Mx + g))"
    unfolding cart_lengths by (rule sum_split_lessThan)
  also have "(\<Sum>i<?Mx. div_coef (c_faces ?conn ! i) c * ?q i) = 0"
    using face_flux_x [OF nx ny k] by simp
  also have "(\<Sum>g<?My. div_coef (c_faces ?conn ! (?Mx + g)) c * ?q (?Mx + g))
               = (\<Sum>g<?My. (k / real nx) * ((if g = c + nx then 1 else 0) - (if g = c then 1 else 0)))"
  proof (rule sum.cong)
    fix g
    assume "g \<in> {..<?My}"
    then have g: "g < ?My" by simp
    have "div_coef (c_faces ?conn ! (?Mx + g)) c * ?q (?Mx + g)
            = div_coef (y_face nx ny g) c * (if g < nx then - (k / real nx) else k / real nx)"
      unfolding cart_face_y(1) [OF g] face_flux_y [OF nx ny k g] by (rule refl)
    also have "\<dots> = (k / real nx) * ((if g = c + nx then 1 else 0) - (if g = c then 1 else 0))"
      using nx c g by (rule y_face_balance_term)
    finally show "div_coef (c_faces ?conn ! (?Mx + g)) c * ?q (?Mx + g)
            = (k / real nx) * ((if g = c + nx then 1 else 0) - (if g = c then 1 else 0))" .
  qed (rule refl)
  also have "\<dots> = (k / real nx)
                 * ((\<Sum>g<?My. if g = c + nx then 1 else 0) - (\<Sum>g<?My. if g = c then 1 else 0))"
    by (simp only: sum_distrib_left [symmetric] sum_subtractf)
  also have "(\<Sum>g<?My. if g = c + nx then 1 else 0) = (1 :: real)"
    using c by simp
  also have "(\<Sum>g<?My. if g = c then 1 else 0) = (1 :: real)"
    using c by simp
  finally show ?thesis
    by simp
qed

lemma linear_field_solves:
  assumes nx: "0 < nx" and ny: "0 < ny" and k: "0 < k"
  shows "solves (tpfa_matrix (cart_conn nx ny) (replicate (nx * ny) k))
           (tpfa_rhs (cart_conn nx ny) (replicate (nx * ny) k) (bc_val_of (cart_grid nx ny)))
           (linear_field nx ny)"
proof -
  have wp: "well_posed (cart_conn nx ny) (replicate (nx * ny) k) (bc_val_of (cart_grid nx ny))"
    using assms by (rule cart_well_posed)
  have len: "length (linear_field nx ny) = n_cells (cart_conn nx ny)"
    by (simp add: cart_lengths)
  show ?thesis
    unfolding solves_iff_balance [OF wp len]
    using linear_field_balance [OF nx ny k] by (simp add: cart_lengths)
qed

subsection \<open>The system has one solution\<close>

lemma k_harmonic_pos:
  assumes "0 < d1" "0 < k1" "0 < d2" "0 < k2"
  shows "0 < k_harmonic d1 k1 d2 k2"
  using assms by (simp add: k_harmonic_def add_pos_pos)

lemma transmissibility_pos:
  assumes wp: "well_posed conn kxx bcv" and i: "i < length (c_faces conn)"
  shows "0 < transmissibility kxx (c_faces conn ! i)"
proof -
  let ?f = "c_faces conn ! i"
  have ok: "face_ok (n_cells conn) ?f"
    using wp i by (rule well_posed_face)
  have kpos: "\<And>c. c < n_cells conn \<Longrightarrow> 0 < kxx ! c"
    using wp by (simp add: well_posed_def list_all_length)
  show ?thesis
  proof (cases "f_neighbour ?f")
    case None
    then show ?thesis
      using ok kpos [of "f_owner ?f"] by (simp add: transmissibility_def face_ok_def)
  next
    case (Some m)
    then have "0 < k_harmonic (f_dist_owner ?f) (kxx ! f_owner ?f) (f_dist_neighbour ?f) (kxx ! m)"
      using ok kpos [of "f_owner ?f"] kpos [of m]
      by (intro k_harmonic_pos) (simp_all add: face_ok_def)
    then show ?thesis
      using Some ok by (simp add: transmissibility_def face_ok_def add_pos_pos)
  qed
qed

text \<open>Two solutions of the system have the same difference across every face.\<close>

lemma solutions_same_jumps:
  assumes wp: "well_posed conn kxx bcv"
    and ly: "length y = n_cells conn" and lz: "length z = n_cells conn"
    and sy: "solves (tpfa_matrix conn kxx) (tpfa_rhs conn kxx bcv) y"
    and sz: "solves (tpfa_matrix conn kxx) (tpfa_rhs conn kxx bcv) z"
    and i: "i < length (c_faces conn)"
  shows "jump (c_faces conn ! i) y = jump (c_faces conn ! i) z"
proof -
  let ?N = "n_cells conn" and ?M = "length (c_faces conn)"
  let ?f = "\<lambda>i. c_faces conn ! i"
  let ?t = "\<lambda>i. transmissibility kxx (?f i)"
  let ?J = "\<lambda>i. jump (?f i) y - jump (?f i) z"
  have bal_y: "\<forall>c<?N. (\<Sum>i<?M. div_coef (?f i) c * face_flux conn kxx bcv y i) = 0"
    using sy by (simp only: solves_iff_balance [OF wp ly])
  have bal_z: "\<forall>c<?N. (\<Sum>i<?M. div_coef (?f i) c * face_flux conn kxx bcv z i) = 0"
    using sz by (simp only: solves_iff_balance [OF wp lz])
  have diff: "face_flux conn kxx bcv y i - face_flux conn kxx bcv z i = ?t i * ?J i" for i
    by (simp add: face_flux_def algebra_simps)
  have cell: "(\<Sum>i<?M. div_coef (?f i) c * (?t i * ?J i)) = 0" if "c < ?N" for c
  proof -
    have "(\<Sum>i<?M. div_coef (?f i) c * (?t i * ?J i))
            = (\<Sum>i<?M. div_coef (?f i) c
                 * (face_flux conn kxx bcv y i - face_flux conn kxx bcv z i))"
      by (simp only: diff)
    also have "\<dots> = (\<Sum>i<?M. div_coef (?f i) c * face_flux conn kxx bcv y i)
              - (\<Sum>i<?M. div_coef (?f i) c * face_flux conn kxx bcv z i)"
      by (simp only: right_diff_distrib sum_subtractf)
    finally show ?thesis
      using bal_y bal_z that by simp
  qed
  have jumps: "(\<Sum>c<?N. div_coef (?f i) c * (y ! c - z ! c)) = ?J i" if "i < ?M" for i
  proof -
    have "(\<Sum>c<?N. div_coef (?f i) c * (y ! c - z ! c))
            = (\<Sum>c<?N. div_coef (?f i) c * y ! c) - (\<Sum>c<?N. div_coef (?f i) c * z ! c)"
      by (simp only: right_diff_distrib sum_subtractf)
    then show ?thesis
      using well_posed_face [OF wp that] by (simp add: div_coef_sum)
  qed
  have "(\<Sum>i<?M. ?t i * (?J i)\<^sup>2) = (\<Sum>i<?M. \<Sum>c<?N. (y ! c - z ! c) * (div_coef (?f i) c * (?t i * ?J i)))"
  proof (rule sum.cong)
    fix i
    assume "i \<in> {..<?M}"
    then have i: "i < ?M" by simp
    have "(\<Sum>c<?N. (y ! c - z ! c) * (div_coef (?f i) c * (?t i * ?J i)))
            = (\<Sum>c<?N. (div_coef (?f i) c * (y ! c - z ! c)) * (?t i * ?J i))"
      by (intro sum.cong) (simp_all add: mult_ac)
    also have "\<dots> = (\<Sum>c<?N. div_coef (?f i) c * (y ! c - z ! c)) * (?t i * ?J i)"
      by (simp only: sum_distrib_right)
    also have "\<dots> = ?J i * (?t i * ?J i)"
      by (simp only: jumps [OF i])
    finally show "?t i * (?J i)\<^sup>2
            = (\<Sum>c<?N. (y ! c - z ! c) * (div_coef (?f i) c * (?t i * ?J i)))"
      by (simp add: power2_eq_square mult_ac)
  qed (rule refl)
  also have "\<dots> = (\<Sum>c<?N. \<Sum>i<?M. (y ! c - z ! c) * (div_coef (?f i) c * (?t i * ?J i)))"
    by (rule sum.swap)
  also have "\<dots> = (\<Sum>c<?N. (y ! c - z ! c) * (\<Sum>i<?M. div_coef (?f i) c * (?t i * ?J i)))"
    by (simp only: sum_distrib_left)
  also have "\<dots> = 0"
    using cell by simp
  finally have energy: "(\<Sum>i<?M. ?t i * (?J i)\<^sup>2) = 0" .
  have "\<forall>i\<in>{..<?M}. ?t i * (?J i)\<^sup>2 = 0"
  proof (rule sum_nonneg_eq_0_iff [THEN iffD1])
    show "finite {..<?M}" by simp
    show "\<And>i. i \<in> {..<?M} \<Longrightarrow> 0 \<le> ?t i * (?J i)\<^sup>2"
      using transmissibility_pos [OF wp] by (simp add: less_imp_le)
    show "(\<Sum>i<?M. ?t i * (?J i)\<^sup>2) = 0" by (rule energy)
  qed
  then have "?t i * (?J i)\<^sup>2 = 0"
    using i by simp
  then show ?thesis
    using transmissibility_pos [OF wp i] by simp
qed

lemma x_face_at:
  assumes "i \<le> nx"
  shows "f_owner (x_face nx ny (i + (nx + 1) * j)) = (if i = 0 then 0 else i - 1) + nx * j"
    and "f_neighbour (x_face nx ny (i + (nx + 1) * j))
           = (if 0 < i \<and> i < nx then Some (i + nx * j) else None)"
proof -
  have i: "i < nx + 1"
    using assms by simp
  have "nx + 1 \<noteq> 0" by simp
  then have "(i + (nx + 1) * j) div (nx + 1) = j + i div (nx + 1)"
    by (rule div_mult_self2)
  also have "i div (nx + 1) = 0"
    using i by (rule div_less)
  finally have d: "(i + (nx + 1) * j) div (nx + 1) = j"
    by (simp only: add_0_right)
  have "(i + (nx + 1) * j) mod (nx + 1) = i mod (nx + 1)"
    by (rule mod_mult_self2)
  also have "i mod (nx + 1) = i"
    using i by (rule mod_less)
  finally have m: "(i + (nx + 1) * j) mod (nx + 1) = i" .
  show "f_owner (x_face nx ny (i + (nx + 1) * j)) = (if i = 0 then 0 else i - 1) + nx * j"
    unfolding x_face_def Let_def m d by simp
  show "f_neighbour (x_face nx ny (i + (nx + 1) * j))
           = (if 0 < i \<and> i < nx then Some (i + nx * j) else None)"
    unfolding x_face_def Let_def m d by simp
qed

lemma x_face_index_less:
  fixes i j nx ny :: nat
  assumes "i \<le> nx" "j < ny"
  shows "i + (nx + 1) * j < (nx + 1) * ny"
  using assms by (intro cell_index_less) simp_all

lemma linear_field_unique:
  assumes nx: "0 < nx" and ny: "0 < ny" and k: "0 < k"
    and sy: "solves (tpfa_matrix (cart_conn nx ny) (replicate (nx * ny) k))
               (tpfa_rhs (cart_conn nx ny) (replicate (nx * ny) k) (bc_val_of (cart_grid nx ny))) y"
  shows "y = linear_field nx ny"
proof -
  let ?conn = "cart_conn nx ny"
  let ?K = "replicate (nx * ny) k"
  let ?B = "bc_val_of (cart_grid nx ny)"
  let ?P = "linear_field nx ny"
  have wp: "well_posed ?conn ?K ?B"
    using nx ny k by (rule cart_well_posed)
  have "0 < n_cells ?conn"
    using nx ny by (simp add: cart_lengths)
  with sy have ly: "length y = n_cells ?conn"
    by (rule solves_length)
  have lP: "length ?P = n_cells ?conn"
    by (simp add: cart_lengths)
  have sP: "solves (tpfa_matrix ?conn ?K) (tpfa_rhs ?conn ?K ?B) ?P"
    using nx ny k by (rule linear_field_solves)
  have jumps: "jump (x_face nx ny g) y = jump (x_face nx ny g) ?P" if "g < (nx + 1) * ny" for g
  proof -
    have "g < length (c_faces ?conn)"
      using that by (simp add: cart_lengths)
    from solutions_same_jumps [OF wp ly lP sy sP this] show ?thesis
      by (simp only: cart_face_x(1) [OF that])
  qed
  have row: "y ! (a + nx * j) = ?P ! (a + nx * j)" if "j < ny" "a < nx" for a j
    using that(2)
  proof (induction a)
    case 0
    have "(0::nat) \<le> nx" by simp
    note at = x_face_at [OF this, of ny j]
    have "0 + (nx + 1) * j < (nx + 1) * ny"
      using that(1) by (intro x_face_index_less) simp_all
    from jumps [OF this] show ?case
      using at by (simp add: jump_def)
  next
    case (Suc a)
    then have a: "a < nx" by simp
    have le: "Suc a \<le> nx" using Suc.prems by simp
    note at = x_face_at [OF le, of ny j]
    have "Suc a + (nx + 1) * j < (nx + 1) * ny"
      using le that(1) by (rule x_face_index_less)
    from jumps [OF this] have "y ! (a + nx * j) - y ! (Suc a + nx * j)
                                 = ?P ! (a + nx * j) - ?P ! (Suc a + nx * j)"
      using at Suc.prems by (simp add: jump_def)
    with Suc.IH [OF a] show ?case
      by simp
  qed
  show ?thesis
  proof (rule nth_equalityI)
    show "length y = length ?P"
      by (simp only: ly lP)
  next
    fix c
    assume "c < length y"
    then have c: "c < nx * ny"
      by (simp add: ly cart_lengths)
    then have "c div nx < ny"
      by (simp add: less_mult_imp_div_less mult.commute)
    moreover have "c mod nx < nx"
      using nx by simp
    ultimately have "y ! (c mod nx + nx * (c div nx)) = ?P ! (c mod nx + nx * (c div nx))"
      by (rule row)
    then show "y ! c = ?P ! c"
      by simp
  qed
qed

subsection \<open>The outflow faces and their sum\<close>

lemma take_indices_Inr:
  assumes "\<forall>i \<in> set idx. i < length a"
  shows "take_indices a idx = Inr (map (\<lambda>i. a ! i) idx)"
  using assms by (simp add: take_indices_def)

lemma mask_select_filter:
  "mask_select xs (map P xs) = Inr (filter P xs)"
proof -
  have "map fst (filter snd (zip xs (map P xs))) = filter P xs"
    by (induction xs) simp_all
  then show ?thesis
    by (simp add: mask_select_def)
qed

lemma amax_Max:
  assumes "xs \<noteq> []"
  shows "amax xs = Inr (Max (set xs))"
proof (cases xs)
  case Nil
  with assms show ?thesis by simp
next
  case (Cons x xs')
  show ?thesis
    unfolding Cons by (simp only: amax.simps Max.set_eq_fold)
qed

lemma sum_list_filter_upt:
  fixes h :: "nat \<Rightarrow> real"
  shows "sum_list (map h (filter P [0..<n])) = (\<Sum>i<n. if P i then h i else 0)"
proof -
  have "sum_list (map h (filter P [0..<n])) = sum_list (map (\<lambda>i. if P i then h i else 0) [0..<n])"
    by (rule sum_list_map_filter')
  then show ?thesis
    by (simp only: sum_list_upt)
qed

lemma cart_nodes_max:
  assumes nx: "0 < nx" and ny: "0 < ny"
  shows "amax (row1 (nodes (cart_grid nx ny))) = Inr 1"
proof -
  let ?ys = "map (\<lambda>g. real (g div (nx + 1)) / real ny) [0..<(nx + 1) * (ny + 1)]"
  have ys: "row1 (nodes (cart_grid nx ny)) = ?ys"
    by (simp add: cart_grid_def row1_def)
  have ne: "?ys \<noteq> []"
    by simp
  have "Max (set ?ys) = 1"
  proof (rule Max_eqI)
    show "finite (set ?ys)" by simp
  next
    fix y
    assume "y \<in> set ?ys"
    then obtain g where "g \<in> set [0..<(nx + 1) * (ny + 1)]"
      and y: "y = real (g div (nx + 1)) / real ny"
      unfolding set_map by (rule imageE)
    then have g: "g < (nx + 1) * (ny + 1)"
      by (simp only: set_upt atLeastLessThan_iff)
    from g have "g div (nx + 1) < ny + 1"
      by (simp add: less_mult_imp_div_less mult.commute)
    then have "real (g div (nx + 1)) \<le> real ny"
      by simp
    then show "y \<le> 1"
      using ny by (simp add: y)
  next
    have "(nx + 1) * ny < (nx + 1) * (ny + 1)"
      by simp
    moreover have "((nx + 1) * ny) div (nx + 1) = ny"
      by (rule nonzero_mult_div_cancel_left) simp
    then have "real (((nx + 1) * ny) div (nx + 1)) / real ny = 1"
      using ny by (simp only: divide_self_if) simp
    ultimately show "1 \<in> set ?ys"
      by (metis (mono_tags, lifting) atLeast0LessThan image_eqI lessThan_iff list.set_map set_upt)
  qed
  then show ?thesis
    unfolding ys using amax_Max [OF ne] by simp
qed

lemma cart_tags:
  "tags (cart_grid nx ny) ''domain_boundary_faces''
     = Some (map (\<lambda>g. g mod (nx + 1) = 0 \<or> g mod (nx + 1) = nx) [0..<(nx + 1) * ny]
             @ map (\<lambda>g. g < nx \<or> nx * ny \<le> g) [0..<nx * (ny + 1)])"
  by (simp add: cart_grid_def)


lemma cart_boundary_faces:
  "boundary_faces (cart_grid nx ny)
     = Inr (filter (cart_tag nx ny) [0..<(nx + 1) * ny + nx * (ny + 1)])"
  by (simp add: boundary_faces_def getitem_def bindE_def cart_tags nonzero_def cart_tag_def)

lemma cart_tag_y:
  assumes "g < nx * (ny + 1)"
  shows "cart_tag nx ny ((nx + 1) * ny + g) \<longleftrightarrow> g < nx \<or> nx * ny \<le> g"
  using assms unfolding cart_tag_def by (simp add: nth_append)

lemma cart_centre_y:
  assumes "g < nx * (ny + 1)"
  shows "row1 (face_centers (cart_grid nx ny)) ! ((nx + 1) * ny + g) = real (g div nx) / real ny"
  using assms by (simp add: cart_grid_def row1_def nth_append)

lemma cart_fc_length:
  "length (face_centers (cart_grid nx ny)) = (nx + 1) * ny + nx * (ny + 1)"
  by (simp add: cart_grid_def)

lemma outflow_sum:
  assumes nx: "0 < nx" and ny: "0 < ny" and k: "0 < k"
  shows "(\<Sum>i<(nx + 1) * ny + nx * (ny + 1).
            if cart_tag nx ny i \<and> isclose (row1 (face_centers (cart_grid nx ny)) ! i) 1
            then face_flux (cart_conn nx ny) (replicate (nx * ny) k) (bc_val_of (cart_grid nx ny))
                   (linear_field nx ny) i
            else 0) = k"
proof -
  let ?Q = "face_flux (cart_conn nx ny) (replicate (nx * ny) k) (bc_val_of (cart_grid nx ny))
              (linear_field nx ny)"
  let ?Y = "\<lambda>i. row1 (face_centers (cart_grid nx ny)) ! i"
  let ?Mx = "(nx + 1) * ny"
  let ?summand = "\<lambda>i. if cart_tag nx ny i \<and> isclose (?Y i) 1 then ?Q i else 0"
  have "(\<Sum>i<?Mx + nx * (ny + 1). ?summand i)
          = (\<Sum>i<?Mx. ?summand i) + (\<Sum>g<nx * (ny + 1). ?summand (?Mx + g))"
    by (rule sum_split_lessThan)
  also have "(\<Sum>i<?Mx. ?summand i) = 0"
    by (intro sum.neutral) (simp add: face_flux_x [OF nx ny k])
  also have "(\<Sum>g<nx * (ny + 1). ?summand (?Mx + g))
               = (\<Sum>g<nx * ny + nx. if nx * ny \<le> g then k / real nx else 0)"
  proof (rule sum.cong)
    show "{..<nx * (ny + 1)} = {..<nx * ny + nx}"
      by simp
  next
    fix g
    assume "g \<in> {..<nx * ny + nx}"
    then have g: "g < nx * (ny + 1)"
      by simp
    have nxny: "nx \<le> nx * ny"
      using ny by simp
    consider (bottom) "g < nx" | (inner) "nx \<le> g" "g < nx * ny" | (top) "nx \<le> g" "nx * ny \<le> g"
      by arith
    then show "?summand (?Mx + g) = (if nx * ny \<le> g then k / real nx else 0)"
    proof cases
      case bottom
      then have "g div nx = 0" by simp
      then have "\<not> isclose (?Y (?Mx + g)) 1"
        unfolding cart_centre_y [OF g] by (simp add: isclose_def)
      moreover have "\<not> nx * ny \<le> g"
        using bottom nxny by arith
      ultimately show ?thesis
        by simp
    next
      case inner
      then have "\<not> cart_tag nx ny (?Mx + g)"
        unfolding cart_tag_y [OF g] by simp
      then show ?thesis
        using inner by simp
    next
      case top
      have "g < nx * Suc ny"
        using g by simp
      with top(2) have "g div nx = ny"
        by (intro div_nat_eqI) simp_all
      then have "isclose (?Y (?Mx + g)) 1"
        unfolding cart_centre_y [OF g] using ny by (simp add: isclose_def)
      moreover have "cart_tag nx ny (?Mx + g)"
        unfolding cart_tag_y [OF g] using top by simp
      moreover have "?Q (?Mx + g) = k / real nx"
        unfolding face_flux_y [OF nx ny k g] using top nx by simp
      ultimately show ?thesis
        using top by simp
    qed
  qed
  also have "\<dots> = (\<Sum>g<nx * ny. if nx * ny \<le> g then k / real nx else 0)
                 + (\<Sum>h<nx. if nx * ny \<le> nx * ny + h then k / real nx else 0)"
    by (rule sum_split_lessThan)
  also have "(\<Sum>g<nx * ny. if nx * ny \<le> g then k / real nx else 0) = 0"
    by simp
  also have "(\<Sum>h<nx. if nx * ny \<le> nx * ny + h then k / real nx else 0) = k"
    using nx by simp
  finally show ?thesis
    by simp
qed

lemma direct_solver_Inr:
  assumes "direct_solver S A b" "solves A b x" "\<And>y. solves A b y \<Longrightarrow> y = x"
  shows "S A b = Inr x"
  using assms unfolding direct_solver_def by blast

lemma cart_run:
  assumes nx: "0 < nx" and ny: "0 < ny" and k: "0 < k"
    and ds: "direct_solver S (tpfa_matrix (cart_conn nx ny) (replicate (nx * ny) k))
               (tpfa_rhs (cart_conn nx ny) (replicate (nx * ny) k) (bc_val_of (cart_grid nx ny)))"
  shows "lab99_solve_problem (tpfa_lib (cart_conn nx ny) S) (cart_grid nx ny) (Scalar k)
           = Inr (linear_field nx ny, k)"
proof -
  let ?conn = "cart_conn nx ny" and ?sd = "cart_grid nx ny"
  let ?K = "replicate (nx * ny) k"
  let ?B = "bc_val_of ?sd"
  let ?P = "linear_field nx ny"
  let ?M = "(nx + 1) * ny + nx * (ny + 1)"
  let ?bf = "filter (cart_tag nx ny) [0..<?M]"
  let ?fc = "face_centers ?sd"
  let ?C = "\<lambda>i. isclose (row1 ?fc ! i) 1"
  let ?Q = "face_flux ?conn ?K ?B ?P"
  let ?q = "map ?Q [0..<?M]"
  let ?ofs = "filter ?C ?bf"
  have wp: "well_posed ?conn ?K ?B"
    using nx ny k by (rule cart_well_posed)
  have lP: "length ?P = n_cells ?conn"
    by (simp add: cart_lengths)
  have M: "length (c_faces ?conn) = ?M"
    by (simp add: cart_lengths)
  have s1: "times_ones (Scalar k) (num_cells ?sd) = (Inr ?K :: string exn + real list)"
    by (simp add: cart_lengths)
  have s2: "boundary_faces ?sd = (Inr ?bf :: string exn + nat list)"
    by (rule cart_boundary_faces)
  have bf_less: "\<forall>i \<in> set ?bf. i < length ?fc"
    by (simp add: cart_fc_length)
  have s3: "take_indices ?fc ?bf = (Inr (map (\<lambda>i. ?fc ! i) ?bf) :: string exn + point list)"
    using bf_less by (rule take_indices_Inr)
  have s4: "amax (row1 (nodes ?sd)) = (Inr 1 :: string exn + real)"
    using nx ny by (rule cart_nodes_max)
  have s5: "?bf \<noteq> []"
  proof -
    have "0 < (nx + 1) * ny"
      using ny by simp
    then have "cart_tag nx ny 0"
      by (simp add: cart_tag_def nth_append)
    moreover have "0 \<in> set [0..<?M]"
      using ny by simp
    ultimately show ?thesis
      by (auto simp: filter_empty_conv)
  qed
  have s7: "S (tpfa_matrix ?conn ?K) (tpfa_rhs ?conn ?K ?B) = Inr ?P"
    using ds linear_field_solves [OF nx ny k] linear_field_unique [OF nx ny k]
    by (rule direct_solver_Inr)
  have s8: "matvec (flux_matrix ?conn ?K) ?P
              = (Inr (map (\<lambda>i. transmissibility ?K (c_faces ?conn ! i) * jump (c_faces ?conn ! i) ?P)
                       [0..<length (c_faces ?conn)]) :: string exn + real list)"
    using wp lP by (rule matvec_flux)
  have lB: "length ?B = length (c_faces ?conn)"
    by (simp add: cart_lengths)
  have s9: "matvec (bound_flux_matrix ?conn ?K) ?B
              = (Inr (map (\<lambda>i. bound_coef ?K (c_faces ?conn ! i) * ?B ! i)
                       [0..<length (c_faces ?conn)]) :: string exn + real list)"
    using lB by (rule matvec_bound_flux)
  have s10: "broadcast2 (\<lambda>a b. a + b)
               (map (\<lambda>i. transmissibility ?K (c_faces ?conn ! i) * jump (c_faces ?conn ! i) ?P)
                  [0..<length (c_faces ?conn)])
               (map (\<lambda>i. bound_coef ?K (c_faces ?conn ! i) * ?B ! i)
                  [0..<length (c_faces ?conn)])
             = (Inr ?q :: string exn + real list)"
    using recovered_flux [OF wp lP s8 s9] by (simp only: M)
  have "row1 (map (\<lambda>i. ?fc ! i) ?bf) = map (\<lambda>i. row1 ?fc ! i) ?bf"
    using bf_less by (simp add: row1_def)
  then have mask: "map (\<lambda>y. isclose y 1) (row1 (map (\<lambda>i. ?fc ! i) ?bf)) = map ?C ?bf"
    by simp
  have s11: "mask_select ?bf (map (\<lambda>y. isclose y 1) (row1 (map (\<lambda>i. ?fc ! i) ?bf)))
               = (Inr ?ofs :: string exn + nat list)"
    unfolding mask by (rule mask_select_filter)
  have "\<forall>i \<in> set ?ofs. i < length ?q"
    by simp
  then have s12: "take_indices ?q ?ofs = (Inr (map (\<lambda>i. ?q ! i) ?ofs) :: string exn + real list)"
    by (rule take_indices_Inr)
  have "sum_list (map (\<lambda>i. ?q ! i) ?ofs)
          = sum_list (map (\<lambda>i. ?q ! i) (filter (\<lambda>i. cart_tag nx ny i \<and> ?C i) [0..<?M]))"
    by (simp only: filter_filter conj_commute)
  also have "\<dots> = (\<Sum>i<?M. if cart_tag nx ny i \<and> ?C i then ?q ! i else 0)"
    by (rule sum_list_filter_upt)
  also have "\<dots> = (\<Sum>i<?M. if cart_tag nx ny i \<and> ?C i then ?Q i else 0)"
    by (intro sum.cong) simp_all
  also have "\<dots> = k"
    using nx ny k by (rule outflow_sum)
  finally have total: "sum_list (map (\<lambda>i. ?q ! i) ?ofs) = k" .
  have "lab99_solve_problem (tpfa_lib ?conn S) ?sd (Scalar k)
          = Inr (?P, sum_list (map (\<lambda>i. ?q ! i) ?ofs))"
    using s1 s2 s3 s4 s5 wp s7 s8 s9 s10 s11 s12
    by (rule lab99_tpfa_runI [where kxx = ?K and bf = ?bf and ymax = 1 and q = ?q and ofs = ?ofs])
  then show ?thesis
    by (simp only: total)
qed

subsection \<open>Scaling the conductivity\<close>

lemma times_ones_scaled:
  assumes "times_ones perm n = (Inr kxx :: 'e exn + real list)"
  shows "times_ones (scaled c perm) n = (Inr (map (\<lambda>k. c * k) kxx) :: 'e exn + real list)"
proof (cases perm)
  case (Scalar k)
  with assms show ?thesis
    by (auto simp: scaled_def)
next
  case (PerCell ks)
  have hd_scaled: "hd (map (\<lambda>k. c * k) ks) = c * hd ks" if "length ks = 1"
    using that by (cases ks) simp_all
  have "map2 (\<lambda>k one. k * one) (map (\<lambda>k. c * k) ks) (replicate n 1)
          = map (\<lambda>k. c * k) (map2 (\<lambda>k one. k * one) ks (replicate n 1))" if "length ks = n"
    using that by (intro nth_equalityI) simp_all
  with assms PerCell show ?thesis
    by (auto simp: scaled_def broadcast2_def hd_scaled split: if_splits)
qed

lemma k_harmonic_scaled: "k_harmonic d1 (c * k1) d2 (c * k2) = c * k_harmonic d1 k1 d2 k2"
proof -
  have "d1 / (c * k1) + d2 / (c * k2) = (d1 / k1 + d2 / k2) / c"
    by (simp add: add_divide_distrib mult.commute)
  then show ?thesis
    by (simp add: k_harmonic_def)
qed

lemma transmissibility_scaled:
  assumes "face_ok n f" "length kxx = n"
  shows "transmissibility (map (\<lambda>k. c * k) kxx) f = c * transmissibility kxx f"
proof (cases "f_neighbour f")
  case None
  with assms show ?thesis
    by (simp add: transmissibility_def face_ok_def)
next
  case (Some m)
  with assms have "m < length kxx" "f_owner f < length kxx"
    by (simp_all add: face_ok_def)
  with Some show ?thesis
    by (simp add: transmissibility_def k_harmonic_scaled)
qed

lemma bound_coef_scaled:
  assumes "face_ok n f" "length kxx = n"
  shows "bound_coef (map (\<lambda>k. c * k) kxx) f = c * bound_coef kxx f"
  using transmissibility_scaled [OF assms, of c] by (simp add: bound_coef_def split: option.splits)

lemma well_posed_scaled:
  assumes "well_posed conn kxx bcv" "0 < c"
  shows "well_posed conn (map (\<lambda>k. c * k) kxx) bcv"
  using assms by (simp add: well_posed_def list_all_length)

lemma face_flux_scaled:
  assumes wp: "well_posed conn kxx bcv" and i: "i < length (c_faces conn)"
  shows "face_flux conn (map (\<lambda>k. c * k) kxx) bcv x i = c * face_flux conn kxx bcv x i"
proof -
  have ok: "face_ok (n_cells conn) (c_faces conn ! i)"
    using wp i by (rule well_posed_face)
  have len: "length kxx = n_cells conn"
    using wp by (simp add: well_posed_def)
  show ?thesis
    unfolding face_flux_def transmissibility_scaled [OF ok len] bound_coef_scaled [OF ok len]
    by (simp add: algebra_simps)
qed

lemma empty_system:
  assumes "n_cells conn = 0"
  shows "solves (tpfa_matrix conn kxx) (tpfa_rhs conn kxx bcv) x"
  using assms by (simp add: solves_def tpfa_matrix_def tpfa_rhs_def matvec_def)

lemma solves_scaled:
  assumes wp: "well_posed conn kxx bcv" and c: "0 < c"
  shows "solves (tpfa_matrix conn (map (\<lambda>k. c * k) kxx)) (tpfa_rhs conn (map (\<lambda>k. c * k) kxx) bcv) x
           \<longleftrightarrow> solves (tpfa_matrix conn kxx) (tpfa_rhs conn kxx bcv) x"
proof (cases "n_cells conn = 0")
  case True
  then show ?thesis
    by (simp add: empty_system)
next
  case False
  then have n: "0 < n_cells conn"
    by simp
  let ?K = "map (\<lambda>k. c * k) kxx"
  have wp': "well_posed conn ?K bcv"
    using wp c by (rule well_posed_scaled)
  show ?thesis
  proof (cases "length x = n_cells conn")
    case True
    have "(\<Sum>i<length (c_faces conn). div_coef (c_faces conn ! i) cell * face_flux conn ?K bcv x i)
            = c * (\<Sum>i<length (c_faces conn).
                      div_coef (c_faces conn ! i) cell * face_flux conn kxx bcv x i)" for cell
    proof -
      have "(\<Sum>i<length (c_faces conn). div_coef (c_faces conn ! i) cell * face_flux conn ?K bcv x i)
              = (\<Sum>i<length (c_faces conn).
                    c * (div_coef (c_faces conn ! i) cell * face_flux conn kxx bcv x i))"
        by (intro sum.cong) (simp_all add: face_flux_scaled [OF wp])
      then show ?thesis
        by (simp only: sum_distrib_left)
    qed
    then show ?thesis
      using c by (simp add: solves_iff_balance [OF wp True] solves_iff_balance [OF wp' True])
  next
    case False
    then show ?thesis
      using solves_length [OF _ n] by blast
  qed
qed

lemma take_indices_InrD:
  assumes "take_indices a idx = (Inr r :: 'e exn + 'a list)"
  shows "(\<forall>i \<in> set idx. i < length a) \<and> r = map (\<lambda>i. a ! i) idx"
  using assms by (auto simp: take_indices_def split: if_splits)

lemma run_scaled:
  assumes run: "lab99_solve_problem (tpfa_lib conn S) sd perm = Inr (p, s)"
    and kxx: "times_ones perm (num_cells sd) = (Inr kxx :: string exn + real list)"
    and c: "0 < c"
    and ds: "direct_solver S (tpfa_matrix conn kxx) (tpfa_rhs conn kxx (bc_val_of sd))"
    and ds': "direct_solver S (tpfa_matrix conn (map (\<lambda>k. c * k) kxx))
                (tpfa_rhs conn (map (\<lambda>k. c * k) kxx) (bc_val_of sd))"
  shows "lab99_solve_problem (tpfa_lib conn S) sd (scaled c perm) = Inr (p, c * s)"
proof -
  let ?K = "map (\<lambda>k. c * k) kxx" and ?B = "bc_val_of sd"
  let ?M = "length (c_faces conn)"
  from run obtain kxx' bf bfc ymax fp bp q ofs qo where
    r1: "times_ones perm (num_cells sd) = (Inr kxx' :: string exn + real list)" and
    r2: "boundary_faces sd = (Inr bf :: string exn + nat list)" and
    r3: "take_indices (face_centers sd) bf = (Inr bfc :: string exn + point list)" and
    r4: "amax (row1 (nodes sd)) = (Inr ymax :: string exn + real)" and
    r5: "bf \<noteq> []" and
    r6: "well_posed conn kxx' ?B" and
    r7: "S (tpfa_matrix conn kxx') (tpfa_rhs conn kxx' ?B) = Inr p" and
    r8: "matvec (flux_matrix conn kxx') p = (Inr fp :: string exn + real list)" and
    r9: "matvec (bound_flux_matrix conn kxx') ?B = (Inr bp :: string exn + real list)" and
    r10: "broadcast2 (\<lambda>a b. a + b) fp bp = (Inr q :: string exn + real list)" and
    r11: "mask_select bf (map (\<lambda>y. isclose y ymax) (row1 bfc)) = (Inr ofs :: string exn + nat list)" and
    r12: "take_indices q ofs = (Inr qo :: string exn + real list)" and
    s: "s = sum_list qo"
    by (rule lab99_tpfa_runE)
  from r1 kxx have same: "kxx' = kxx"
    by simp
  note wp = r6 [unfolded same]
  have wp': "well_posed conn ?K ?B"
    using wp c by (rule well_posed_scaled)
  have sol: "solves (tpfa_matrix conn kxx) (tpfa_rhs conn kxx ?B) p"
    and uniq: "\<And>y. solves (tpfa_matrix conn kxx) (tpfa_rhs conn kxx ?B) y \<Longrightarrow> y = p"
    using ds r7 [unfolded same] unfolding direct_solver_def by blast+
  have n: "0 < n_cells conn"
  proof (rule ccontr)
    assume "\<not> 0 < n_cells conn"
    then have "solves (tpfa_matrix conn kxx) (tpfa_rhs conn kxx ?B) (0 # p)"
      by (simp add: empty_system)
    then have "0 # p = p"
      by (rule uniq)
    then show False
      by simp
  qed
  have lp: "length p = n_cells conn"
    using sol n by (rule solves_length)
  have t1: "times_ones (scaled c perm) (num_cells sd) = (Inr ?K :: string exn + real list)"
    using kxx by (rule times_ones_scaled)
  have t7: "S (tpfa_matrix conn ?K) (tpfa_rhs conn ?K ?B) = Inr p"
    using ds'
  proof (rule direct_solver_Inr)
    show "solves (tpfa_matrix conn ?K) (tpfa_rhs conn ?K ?B) p"
      using sol by (simp only: solves_scaled [OF wp c])
    show "y = p" if "solves (tpfa_matrix conn ?K) (tpfa_rhs conn ?K ?B) y" for y
      using that uniq by (simp only: solves_scaled [OF wp c])
  qed
  have t8: "matvec (flux_matrix conn ?K) p
              = (Inr (map (\<lambda>i. transmissibility ?K (c_faces conn ! i) * jump (c_faces conn ! i) p) [0..<?M])
                 :: string exn + real list)"
    using wp' lp by (rule matvec_flux)
  have lB: "length ?B = ?M"
    using wp by (simp add: well_posed_def)
  have t9: "matvec (bound_flux_matrix conn ?K) ?B
              = (Inr (map (\<lambda>i. bound_coef ?K (c_faces conn ! i) * ?B ! i) [0..<?M])
                 :: string exn + real list)"
    using lB by (rule matvec_bound_flux)
  have q: "q = map (face_flux conn kxx ?B p) [0..<?M]"
    using recovered_flux [OF wp lp r8 [unfolded same] r9 [unfolded same]] r10 by simp
  have t10: "broadcast2 (\<lambda>a b. a + b)
               (map (\<lambda>i. transmissibility ?K (c_faces conn ! i) * jump (c_faces conn ! i) p) [0..<?M])
               (map (\<lambda>i. bound_coef ?K (c_faces conn ! i) * ?B ! i) [0..<?M])
             = (Inr (map (face_flux conn ?K ?B p) [0..<?M]) :: string exn + real list)"
    using wp' lp t8 t9 by (rule recovered_flux)
  have "map (face_flux conn ?K ?B p) [0..<?M] = map (\<lambda>v. c * v) q"
    unfolding q by (rule nth_equalityI) (simp_all add: face_flux_scaled [OF wp])
  note t10' = t10 [unfolded this]
  from r12 have in_range: "\<forall>i \<in> set ofs. i < length q" and qo: "qo = map (\<lambda>i. q ! i) ofs"
    using take_indices_InrD by blast+
  have t12: "take_indices (map (\<lambda>v. c * v) q) ofs
               = (Inr (map (\<lambda>v. c * v) qo) :: string exn + real list)"
    using in_range by (simp add: take_indices_def qo)
  have "lab99_solve_problem (tpfa_lib conn S) sd (scaled c perm)
          = Inr (p, sum_list (map (\<lambda>v. c * v) qo))"
    using t1 r2 r3 r4 r5 wp' t7 t8 t9 t10' r11 t12
    by (rule lab99_tpfa_runI [where kxx = ?K and bf = bf and ymax = ymax
          and q = "map (\<lambda>v. c * v) q" and ofs = ofs])
  then show ?thesis
    by (simp add: s sum_list_const_mult)
qed

subsection \<open>The one-cell grid and its solver\<close>

lemma linear_field_analytic:
  "linear_field nx ny = map (\<lambda>c. analytic_pressure (cell_center nx ny c)) [0..<nx * ny]"
  by (simp add: linear_field_def analytic_pressure_def cell_center_def)

lemma lab10_run_of_lab99:
  assumes "lab99_solve_problem L sd perm = Inr r"
  shows "lab10_solve_problem L sd perm = Inr r"
proof (cases "row1 (nodes sd)")
  case Nil
  with assms show ?thesis
    by (simp add: lab10_solve_problem_def lab99_solve_problem_def bindE_def Let_def
             split: sum.splits)
next
  case (Cons y ys)
  with assms show ?thesis
    by (simp add: lab10_solve_problem_def lab99_solve_problem_def bindE_def Let_def)
qed

lemma lab99_run_of_lab10:
  assumes "lab10_solve_problem L sd perm = Inr r"
  shows "lab99_solve_problem L sd perm = Inr r"
proof (cases "row1 (nodes sd)")
  case Nil
  with assms show ?thesis
    by (simp add: lab10_solve_problem_def lab99_solve_problem_def bindE_def Let_def
             split: sum.splits)
next
  case (Cons y ys)
  with assms show ?thesis
    by (simp add: lab10_solve_problem_def lab99_solve_problem_def bindE_def Let_def)
qed

lemma solves_one_unknown:
  "solves [[a]] [y] x \<longleftrightarrow> (\<exists>v. x = [v] \<and> a * v = y)"
proof (cases x)
  case Nil
  then show ?thesis
    by (simp add: solves_def matvec_def)
next
  case (Cons v vs)
  then show ?thesis
    by (cases vs) (simp_all add: solves_def matvec_def)
qed

lemma solve1_direct:
  assumes "a \<noteq> 0"
  shows "direct_solver solve1 [[a]] [y]"
  unfolding direct_solver_def solves_one_unknown
  using assms by (auto simp: solve1_def field_simps)

lemma unit_square_faces:
  "c_faces (cart_conn (Suc 0) (Suc 0))
     = [\<lparr>f_owner = 0, f_neighbour = None, f_dist_owner = 1/2, f_dist_neighbour = 1/2, f_area = 1\<rparr>,
        \<lparr>f_owner = 0, f_neighbour = None, f_dist_owner = 1/2, f_dist_neighbour = 1/2, f_area = 1\<rparr>,
        \<lparr>f_owner = 0, f_neighbour = None, f_dist_owner = 1/2, f_dist_neighbour = 1/2, f_area = 1\<rparr>,
        \<lparr>f_owner = 0, f_neighbour = None, f_dist_owner = 1/2, f_dist_neighbour = 1/2, f_area = 1\<rparr>]"
  by (simp add: cart_conn_def x_face_def y_face_def upt_conv_Cons)

lemma unit_square_values: "bc_val_of (cart_grid (Suc 0) (Suc 0)) = [1/2, 1/2, 1, 0]"
  by (simp add: cart_grid_def bc_val_of_def row1_def upt_conv_Cons)

text \<open>On one cell of conductivity \<open>k\<close> the system is \<open>8 k p = 4 k\<close>.\<close>

lemma unit_square_system:
  "tpfa_matrix (cart_conn 1 1) (replicate (1 * 1) k) = [[8 * k]]"
  "tpfa_rhs (cart_conn 1 1) (replicate (1 * 1) k) (bc_val_of (cart_grid 1 1)) = [4 * k]"
proof -
  have n: "n_cells (cart_conn (Suc 0) (Suc 0)) = Suc 0"
    by (simp add: cart_conn_def)
  show "tpfa_matrix (cart_conn 1 1) (replicate (1 * 1) k) = [[8 * k]]"
    by (simp add: tpfa_matrix_def n unit_square_faces div_coef_def transmissibility_def)
  show "tpfa_rhs (cart_conn 1 1) (replicate (1 * 1) k) (bc_val_of (cart_grid 1 1)) = [4 * k]"
    by (simp add: tpfa_rhs_def n unit_square_faces unit_square_values div_coef_def
          transmissibility_def bound_coef_def upt_conv_Cons)
qed

lemma unit_square_solver:
  assumes "0 < k"
  shows "direct_solver solve1 (tpfa_matrix (cart_conn 1 1) (replicate (1 * 1) k))
           (tpfa_rhs (cart_conn 1 1) (replicate (1 * 1) k) (bc_val_of (cart_grid 1 1)))"
  unfolding unit_square_system using assms by (intro solve1_direct) simp

lemma unit_square_run:
  assumes "0 < k"
  shows "lab99_solve_problem (tpfa_lib (cart_conn 1 1) solve1) (cart_grid 1 1) (Scalar k)
           = Inr ([1/2], k)"
proof -
  have "lab99_solve_problem (tpfa_lib (cart_conn 1 1) solve1) (cart_grid 1 1) (Scalar k)
          = Inr (linear_field 1 1, k)"
    using assms unit_square_solver [OF assms] by (intro cart_run) simp_all
  then show ?thesis
    by (simp add: linear_field_def)
qed

subsection \<open>The grid of two cells and its solver\<close>

lemma solves_two_unknowns:
  "solves [[a11, a12], [a21, a22]] [b1, b2] x
     \<longleftrightarrow> (\<exists>u v. x = [u, v] \<and> a11 * u + a12 * v = b1 \<and> a21 * u + a22 * v = b2)"
proof (cases x)
  case Nil
  then show ?thesis
    by (simp add: solves_def matvec_def)
next
  case (Cons u us)
  note x = this
  show ?thesis
  proof (cases us)
    case Nil
    with x show ?thesis
      by (simp add: solves_def matvec_def)
  next
    case (Cons v vs)
    with x show ?thesis
      by (cases vs) (simp_all add: solves_def matvec_def)
  qed
qed

lemma cramer:
  fixes a11 a12 a21 a22 b1 b2 u v :: real
  assumes det: "a11 * a22 - a12 * a21 \<noteq> 0"
  shows "a11 * u + a12 * v = b1 \<and> a21 * u + a22 * v = b2
           \<longleftrightarrow> u = (b1 * a22 - a12 * b2) / (a11 * a22 - a12 * a21)
               \<and> v = (a11 * b2 - b1 * a21) / (a11 * a22 - a12 * a21)"
proof
  assume eqs: "a11 * u + a12 * v = b1 \<and> a21 * u + a22 * v = b2"
  have "b1 * a22 - a12 * b2 = (a11 * u + a12 * v) * a22 - a12 * (a21 * u + a22 * v)"
    using eqs by simp
  also have "\<dots> = u * (a11 * a22 - a12 * a21)"
    by (simp add: algebra_simps)
  finally have u: "u = (b1 * a22 - a12 * b2) / (a11 * a22 - a12 * a21)"
    using det by (simp add: field_simps)
  have "a11 * b2 - b1 * a21 = a11 * (a21 * u + a22 * v) - (a11 * u + a12 * v) * a21"
    using eqs by simp
  also have "\<dots> = v * (a11 * a22 - a12 * a21)"
    by (simp add: algebra_simps)
  finally have v: "v = (a11 * b2 - b1 * a21) / (a11 * a22 - a12 * a21)"
    using det by (simp add: field_simps)
  from u v show "u = (b1 * a22 - a12 * b2) / (a11 * a22 - a12 * a21)
               \<and> v = (a11 * b2 - b1 * a21) / (a11 * a22 - a12 * a21)" ..
next
  let ?D = "a11 * a22 - a12 * a21"
  assume uv: "u = (b1 * a22 - a12 * b2) / ?D \<and> v = (a11 * b2 - b1 * a21) / ?D"
  have "a11 * u + a12 * v = (a11 * (b1 * a22 - a12 * b2) + a12 * (a11 * b2 - b1 * a21)) / ?D"
    using uv by (simp add: add_divide_distrib)
  also have "a11 * (b1 * a22 - a12 * b2) + a12 * (a11 * b2 - b1 * a21) = b1 * ?D"
    by (simp add: algebra_simps)
  finally have one: "a11 * u + a12 * v = b1"
    using det by simp
  have "a21 * u + a22 * v = (a21 * (b1 * a22 - a12 * b2) + a22 * (a11 * b2 - b1 * a21)) / ?D"
    using uv by (simp add: add_divide_distrib)
  also have "a21 * (b1 * a22 - a12 * b2) + a22 * (a11 * b2 - b1 * a21) = b2 * ?D"
    by (simp add: algebra_simps)
  finally have two: "a21 * u + a22 * v = b2"
    using det by simp
  from one two show "a11 * u + a12 * v = b1 \<and> a21 * u + a22 * v = b2" ..
qed

lemma solve2_direct:
  assumes "a11 * a22 - a12 * a21 \<noteq> 0"
  shows "direct_solver solve2 [[a11, a12], [a21, a22]] [b1, b2]"
proof -
  have run: "solve2 [[a11, a12], [a21, a22]] [b1, b2]
          = Inr [(b1 * a22 - a12 * b2) / (a11 * a22 - a12 * a21),
                 (a11 * b2 - b1 * a21) / (a11 * a22 - a12 * a21)]"
    using assms by (simp add: solve2_def)
  show ?thesis
    unfolding direct_solver_def run solves_two_unknowns
    by (auto simp: cramer [OF assms])
qed

lemma upt_numerals:
  "[0..<2] = [0, 1 :: nat]"
  "[0..<3] = [0, 1, 2 :: nat]"
  "[0..<4] = [0, 1, 2, 3 :: nat]"
  "[0..<7] = [0, 1, 2, 3, 4, 5, 6 :: nat]"
  by code_simp+

lemma cell_pair_faces:
  "c_faces (cart_conn 1 2)
     = [\<lparr>f_owner = 0, f_neighbour = None, f_dist_owner = 1/2, f_dist_neighbour = 1/2, f_area = 1/2\<rparr>,
        \<lparr>f_owner = 0, f_neighbour = None, f_dist_owner = 1/2, f_dist_neighbour = 1/2, f_area = 1/2\<rparr>,
        \<lparr>f_owner = 1, f_neighbour = None, f_dist_owner = 1/2, f_dist_neighbour = 1/2, f_area = 1/2\<rparr>,
        \<lparr>f_owner = 1, f_neighbour = None, f_dist_owner = 1/2, f_dist_neighbour = 1/2, f_area = 1/2\<rparr>,
        \<lparr>f_owner = 0, f_neighbour = None, f_dist_owner = 1/4, f_dist_neighbour = 1/4, f_area = 1\<rparr>,
        \<lparr>f_owner = 0, f_neighbour = Some 1, f_dist_owner = 1/4, f_dist_neighbour = 1/4, f_area = 1\<rparr>,
        \<lparr>f_owner = 1, f_neighbour = None, f_dist_owner = 1/4, f_dist_neighbour = 1/4, f_area = 1\<rparr>]"
proof -
  have sizes: "(1::nat) + 1 = 2" "(2::nat) * 2 = 4" "(1::nat) * (2 + 1) = 3"
    by simp_all
  show ?thesis
    unfolding cart_conn_def x_face_def y_face_def sizes upt_numerals
    by simp
qed

lemma cell_pair_values:
  "bc_val_of (cart_grid 1 2) = [3/4, 3/4, 1/4, 1/4, 1, 1/2, 0]"
proof -
  have sizes: "(1::nat) + 1 = 2" "(2::nat) * 2 = 4" "(1::nat) * (2 + 1) = 3"
    by simp_all
  show ?thesis
    unfolding cart_grid_def bc_val_of_def row1_def sizes upt_numerals
    by simp
qed

lemma cell_pair_system:
  assumes "0 < k"
  shows "tpfa_matrix (cart_conn 1 2) (replicate (1 * 2) k) = [[8 * k, - (2 * k)], [- (2 * k), 8 * k]]"
    and "tpfa_rhs (cart_conn 1 2) (replicate (1 * 2) k) (bc_val_of (cart_grid 1 2))
           = [11 / 2 * k, 1 / 2 * k]"
proof -
  have n: "n_cells (cart_conn 1 2) = 2"
    by (simp add: cart_conn_def)
  have len: "length (c_faces (cart_conn 1 2)) = 7"
    by (simp add: cart_conn_def)
  have two: "replicate (1 * 2) k = [k, k]"
    by (simp add: numeral_2_eq_2)
  have h: "k_harmonic (1/4) k (1/4) k = k"
    using assms by (simp add: k_harmonic_def field_simps)
  show "tpfa_matrix (cart_conn 1 2) (replicate (1 * 2) k) = [[8 * k, - (2 * k)], [- (2 * k), 8 * k]]"
    unfolding tpfa_matrix_def n two upt_numerals cell_pair_faces
    by (simp add: div_coef_def transmissibility_def h)
  show "tpfa_rhs (cart_conn 1 2) (replicate (1 * 2) k) (bc_val_of (cart_grid 1 2))
           = [11 / 2 * k, 1 / 2 * k]"
    unfolding tpfa_rhs_def n len two upt_numerals cell_pair_values
    unfolding cell_pair_faces
    by (simp add: div_coef_def transmissibility_def bound_coef_def h)
qed

lemma cell_pair_solver:
  assumes "0 < k"
  shows "direct_solver solve2 (tpfa_matrix (cart_conn 1 2) (replicate (1 * 2) k))
           (tpfa_rhs (cart_conn 1 2) (replicate (1 * 2) k) (bc_val_of (cart_grid 1 2)))"
  unfolding cell_pair_system [OF assms] using assms by (intro solve2_direct) simp

lemma cell_pair_field:
  "map (\<lambda>c. analytic_pressure (cell_center 1 2 c)) [0..<1 * 2] = [3/4, 1/4]"
proof -
  have "(1::nat) * 2 = 2"
    by simp
  then show ?thesis
    unfolding upt_numerals by (simp add: analytic_pressure_def cell_center_def upt_numerals)
qed

subsection \<open>Pressure, outflow and scaling\<close>

text \<open>
  \<^bold>\<open>C1.\<close> On the uniform Cartesian grid of the unit square with \<open>nx\<close> by \<open>ny\<close> cells and
  a uniform conductivity \<open>k > 0\<close>, both copies of \<open>solve_problem\<close> return, as pressure
  vector, the analytic field \<open>p(x, y) = 1 - y\<close> at the cell centres. The discretisation
  is the model of the previous section, over the reals, and the solver is any function
  that solves the assembled system exactly; the equality is then exact, with no
  tolerance.
\<close>

theorem uniform_grid_pressure_linear:
  assumes "0 < nx" and "0 < ny" and "0 < k"
    and "direct_solver S (tpfa_matrix (cart_conn nx ny) (replicate (nx * ny) k))
           (tpfa_rhs (cart_conn nx ny) (replicate (nx * ny) k) (bc_val_of (cart_grid nx ny)))"
  shows "\<exists>q. lab10_solve_problem (tpfa_lib (cart_conn nx ny) S) (cart_grid nx ny) (Scalar k)
               = Inr (map (\<lambda>c. analytic_pressure (cell_center nx ny c)) [0..<nx * ny], q)
            \<and> lab99_solve_problem (tpfa_lib (cart_conn nx ny) S) (cart_grid nx ny) (Scalar k)
               = Inr (map (\<lambda>c. analytic_pressure (cell_center nx ny c)) [0..<nx * ny], q)"
proof -
  have run: "lab99_solve_problem (tpfa_lib (cart_conn nx ny) S) (cart_grid nx ny) (Scalar k)
               = Inr (linear_field nx ny, k)"
    using assms by (rule cart_run)
  then have "lab10_solve_problem (tpfa_lib (cart_conn nx ny) S) (cart_grid nx ny) (Scalar k)
               = Inr (linear_field nx ny, k)"
    by (rule lab10_run_of_lab99)
  with run show ?thesis
    unfolding linear_field_analytic by blast
qed

text \<open>Two cells, one above the other, conductivity 3: the pressures are 3/4 and 1/4.\<close>

theorem uniform_grid_pressure_linear_witness:
  "\<exists>q. lab10_solve_problem (tpfa_lib (cart_conn 1 2) solve2) (cart_grid 1 2) (Scalar 3)
          = Inr ([3/4, 1/4], q)
       \<and> lab99_solve_problem (tpfa_lib (cart_conn 1 2) solve2) (cart_grid 1 2) (Scalar 3)
          = Inr ([3/4, 1/4], q)"
  using uniform_grid_pressure_linear [of 1 2 3 solve2] cell_pair_solver [of 3]
  unfolding cell_pair_field by simp



text \<open>
  \<^bold>\<open>C4.\<close> For every grid and every conductivity argument on which one of the copies of
  \<open>solve_problem\<close> succeeds, both copies succeed on twice the conductivity, with the same
  pressure vector and twice the outflow. The solver is assumed exact on the two systems
  that are assembled, the one for the conductivity and the one for its double.
\<close>

theorem doubled_conductivity:
  assumes run: "lab10_solve_problem (tpfa_lib conn S) sd perm = Inr (p, s)
                \<or> lab99_solve_problem (tpfa_lib conn S) sd perm = Inr (p, s)"
    and kxx: "times_ones perm (num_cells sd) = (Inr kxx :: string exn + real list)"
    and ds: "direct_solver S (tpfa_matrix conn kxx) (tpfa_rhs conn kxx (bc_val_of sd))"
    and ds2: "direct_solver S (tpfa_matrix conn (map (\<lambda>k. 2 * k) kxx))
                (tpfa_rhs conn (map (\<lambda>k. 2 * k) kxx) (bc_val_of sd))"
  shows "lab10_solve_problem (tpfa_lib conn S) sd (scaled 2 perm) = Inr (p, 2 * s)
         \<and> lab99_solve_problem (tpfa_lib conn S) sd (scaled 2 perm) = Inr (p, 2 * s)"
proof -
  from run have "lab99_solve_problem (tpfa_lib conn S) sd perm = Inr (p, s)"
    using lab99_run_of_lab10 by blast
  then have "lab99_solve_problem (tpfa_lib conn S) sd (scaled 2 perm) = Inr (p, 2 * s)"
    using kxx _ ds ds2 by (rule run_scaled) simp
  then show ?thesis
    using lab10_run_of_lab99 by blast
qed

text \<open>One cell: from conductivity 3 to 6 the pressure stays 1/2 and the outflow goes from 3 to 6.\<close>

theorem doubled_conductivity_witness:
  "lab10_solve_problem (tpfa_lib (cart_conn 1 1) solve1) (cart_grid 1 1) (Scalar 6)
     = Inr ([1/2], 6)
   \<and> lab99_solve_problem (tpfa_lib (cart_conn 1 1) solve1) (cart_grid 1 1) (Scalar 6)
     = Inr ([1/2], 6)"
proof -
  have "times_ones (Scalar 3) (num_cells (cart_grid 1 1)) = (Inr [3] :: string exn + real list)"
    by (simp add: cart_grid_def)
  moreover have "direct_solver solve1 (tpfa_matrix (cart_conn 1 1) [3])
                   (tpfa_rhs (cart_conn 1 1) [3] (bc_val_of (cart_grid 1 1)))"
    using unit_square_solver [of 3] by simp
  moreover have "direct_solver solve1 (tpfa_matrix (cart_conn 1 1) (map (\<lambda>k. 2 * k) [3]))
                   (tpfa_rhs (cart_conn 1 1) (map (\<lambda>k. 2 * k) [3]) (bc_val_of (cart_grid 1 1)))"
    using unit_square_solver [of 6] by simp
  ultimately show ?thesis
    using doubled_conductivity [of "cart_conn 1 1" solve1 "cart_grid 1 1" "Scalar 3" "[1/2]" 3 "[3]"]
      unit_square_run [of 3]
    by (simp add: scaled_def)
qed

end
